theory Spec2Isabelle
  imports
    Main
    "HOL-Library.Sublist"
    "HOL-Library.Multiset"
    "HOL-Library.AList"
    "HOL-Library.Monad_Syntax"
begin

chapter \<open>Knotty: OpenAPI acquisition, normalization, cache and search\<close>

text \<open>
  A shallow embedding of four components of the Knotty MCP server:
  the endpoint search of \<^verbatim>\<open>ToolHandler\<close> (tools), the response classification and the
  error wrapping of \<^verbatim>\<open>OpenAPIFetcher\<close> (fetcher), the single-slot \<^verbatim>\<open>SpecCache\<close> (cache) and
  the \<^verbatim>\<open>OpenAPIParser\<close> (parser).

  Conventions of the embedding.
  \<^item> A JavaScript string is a \<^typ>\<open>string\<close>; the characters are the ASCII range.
    \<^verbatim>\<open>toLowerCase\<close> maps \<^verbatim>\<open>A-Z\<close> to \<^verbatim>\<open>a-z\<close>, and the white space of \<^verbatim>\<open>trim\<close> and of the
    regular expression \<^verbatim>\<open>\s\<close> is TAB, LF, VT, FF, CR and SPACE.
  \<^item> A JavaScript number that the code only counts or compares is an \<^typ>\<open>int\<close> or a
    \<^typ>\<open>nat\<close>.
  \<^item> \<^verbatim>\<open>undefined\<close> for an optional field of a TypeScript interface is \<^term>\<open>None\<close>.
\<close>

section \<open>Strings\<close>

definition is_space :: "char \<Rightarrow> bool" where
  "is_space c = (c \<in> set [CHR 0x09, CHR 0x0A, CHR 0x0B, CHR 0x0C, CHR 0x0D, CHR '' ''])"

definition lower_char :: "char \<Rightarrow> char" where
  "lower_char c =
     (case map_of (zip ''ABCDEFGHIJKLMNOPQRSTUVWXYZ'' ''abcdefghijklmnopqrstuvwxyz'') c of
        Some l \<Rightarrow> l
      | None \<Rightarrow> c)"

definition toLowerCase :: "string \<Rightarrow> string" where
  "toLowerCase s = map lower_char s"

definition trim :: "string \<Rightarrow> string" where
  "trim s = rev (dropWhile is_space (rev (dropWhile is_space s)))"

definition startsWith :: "string \<Rightarrow> string \<Rightarrow> bool" where
  "startsWith s p = prefix p s"

text \<open>\<^verbatim>\<open>s.includes(sub)\<close>: \<^verbatim>\<open>sub\<close> occurs in \<^verbatim>\<open>s\<close> at some position.\<close>

fun "includes" :: "string \<Rightarrow> string \<Rightarrow> bool" where
  "includes [] sub = (sub = [])"
| "includes (c # cs) sub = (prefix sub (c # cs) \<or> includes cs sub)"

text \<open>
  \<^verbatim>\<open>s.split(/\s+/)\<close>: the pieces between the maximal runs of white space. A run at the
  start or at the end of \<^verbatim>\<open>s\<close> leaves an empty piece there, and the empty string splits
  into one empty piece.
\<close>

function split_ws :: "string \<Rightarrow> string \<Rightarrow> string list" where
  "split_ws cur [] = [cur]"
| "split_ws cur (c # cs) =
     (if is_space c then cur # split_ws [] (dropWhile is_space cs)
      else split_ws (cur @ [c]) cs)"
  by pat_completeness auto
termination
  by (relation "measure (\<lambda>(cur, s). length s)")
     (auto simp: le_imp_less_Suc length_dropWhile_le)

definition split_whitespace :: "string \<Rightarrow> string list" where
  "split_whitespace s = split_ws [] s"

section \<open>Endpoint search (tools: \<^verbatim>\<open>ToolHandler.searchEndpoints\<close>)\<close>

text \<open>
  The fields of the interface \<^verbatim>\<open>NormalizedEndpoint\<close> (parser/types.ts) that the search
  reads. The other fields of the interface (parameters, request body, responses,
  security) are never read by the search; they live in the extension of the record.
\<close>

record NormalizedEndpoint =
  path :: string
  "method" :: string
  operationId :: "string option"
  summary :: "string option"
  description :: "string option"
  tags :: "string list"

text \<open>The argument \<^verbatim>\<open>filters?: { method?: string; tag?: string }\<close>.\<close>

record SearchFilters =
  filter_method :: "string option"
  filter_tag :: "string option"

text \<open>
  The truth value of an optional string in a condition such as \<^verbatim>\<open>if (filters?.method)\<close>:
  \<^verbatim>\<open>undefined\<close> and the empty string are false.
\<close>

definition given :: "string option \<Rightarrow> bool" where
  "given x = (case x of None \<Rightarrow> False | Some s \<Rightarrow> s \<noteq> [])"

text \<open>\<^verbatim>\<open>field?.toLowerCase().includes(q)\<close>, as a condition: false when the field is undefined.\<close>

definition opt_includes :: "string option \<Rightarrow> string \<Rightarrow> bool" where
  "opt_includes field q = (case field of None \<Rightarrow> False | Some s \<Rightarrow> includes (toLowerCase s) q)"

text \<open>The body of the callback of \<^verbatim>\<open>endpoints.map\<close>: the score of one endpoint.\<close>

definition scoreEndpoint :: "string \<Rightarrow> string list \<Rightarrow> 'a NormalizedEndpoint_scheme \<Rightarrow> int" where
  "scoreEndpoint normalizedQuery queryTerms endpoint =
     (let score = 0;
          score =
            (if map_option toLowerCase (operationId endpoint) = Some normalizedQuery
             then score + 100
             else if opt_includes (operationId endpoint) normalizedQuery then score + 50
             else score);
          score =
            (if includes (toLowerCase (path endpoint)) normalizedQuery then score + 40 else score);
          score =
            (if opt_includes (summary endpoint) normalizedQuery then score + 30 else score);
          score =
            (if opt_includes (description endpoint) normalizedQuery then score + 20 else score);
          score =
            (if \<exists>t \<in> set (tags endpoint). includes (toLowerCase t) normalizedQuery
             then score + 15 else score)
      in fold
           (\<lambda>t score.
              let score = (if includes (toLowerCase (path endpoint)) t then score + 5 else score);
                  score = (if opt_includes (operationId endpoint) t then score + 5 else score);
                  score = (if opt_includes (summary endpoint) t then score + 3 else score);
                  score = (if opt_includes (description endpoint) t then score + 2 else score)
              in score)
           queryTerms score)"

text \<open>
  \<^verbatim>\<open>searchEndpoints(spec, query, filters)\<close>, on \<^verbatim>\<open>spec.endpoints\<close>. The comparator
  \<^verbatim>\<open>(a, b) => b.score - a.score\<close> orders by descending score, and \<^verbatim>\<open>Array.prototype.sort\<close>
  is stable: it is \<^const>\<open>sort_key\<close> on the negated score.
\<close>

definition searchEndpoints ::
  "'a NormalizedEndpoint_scheme list \<Rightarrow> string \<Rightarrow> SearchFilters \<Rightarrow> 'a NormalizedEndpoint_scheme list"
where
  "searchEndpoints spec_endpoints query filters =
     (let normalizedQuery = trim (toLowerCase query);
          queryTerms = filter (\<lambda>t. length t > 0) (split_whitespace normalizedQuery);
          endpoints = spec_endpoints;
          endpoints =
            (if given (filter_method filters)
             then filter (\<lambda>ep. toLowerCase (method ep) = toLowerCase (the (filter_method filters)))
                    endpoints
             else endpoints);
          endpoints =
            (if given (filter_tag filters)
             then filter
                    (\<lambda>ep. \<exists>t \<in> set (tags ep).
                       includes (toLowerCase t) (toLowerCase (the (filter_tag filters))))
                    endpoints
             else endpoints);
          scored = map (\<lambda>endpoint. (endpoint, scoreEndpoint normalizedQuery queryTerms endpoint))
                     endpoints
      in map fst (sort_key (\<lambda>s. - snd s) (filter (\<lambda>s. snd s > 0) scored)))"

subsection \<open>The search as the specification words it\<close>

text \<open>
  The filters of the specification: the method filter is an exact match that ignores
  case, the tag filter asks for a tag that contains the filter, ignoring case. A filter
  that is not given (undefined or empty) lets every endpoint pass.
\<close>

definition matches_filters :: "SearchFilters \<Rightarrow> 'a NormalizedEndpoint_scheme \<Rightarrow> bool" where
  "matches_filters filters ep =
     ((case filter_method filters of
         None \<Rightarrow> True
       | Some m \<Rightarrow> m = [] \<or> toLowerCase (method ep) = toLowerCase m) \<and>
      (case filter_tag filters of
         None \<Rightarrow> True
       | Some g \<Rightarrow> g = [] \<or> (\<exists>t \<in> set (tags ep). includes (toLowerCase t) (toLowerCase g))))"

text \<open>
  The additive score of the specification, over the lowercase, trimmed query and its
  white-space-split terms: a sum of independent bonuses.
\<close>

definition bonus :: "bool \<Rightarrow> int \<Rightarrow> int" where
  "bonus b n = (if b then n else 0)"

definition term_bonus :: "'a NormalizedEndpoint_scheme \<Rightarrow> string \<Rightarrow> int" where
  "term_bonus ep t =
     bonus (includes (toLowerCase (path ep)) t) 5 +
     bonus (opt_includes (operationId ep) t) 5 +
     bonus (opt_includes (summary ep) t) 3 +
     bonus (opt_includes (description ep) t) 2"

definition claimed_score :: "string \<Rightarrow> 'a NormalizedEndpoint_scheme \<Rightarrow> int" where
  "claimed_score query ep =
     (let q = trim (toLowerCase query);
          terms = filter (\<lambda>t. t \<noteq> []) (split_whitespace q)
      in (if map_option toLowerCase (operationId ep) = Some q then 100
          else bonus (opt_includes (operationId ep) q) 50) +
         bonus (includes (toLowerCase (path ep)) q) 40 +
         bonus (opt_includes (summary ep) q) 30 +
         bonus (opt_includes (description ep) q) 20 +
         bonus (\<exists>t \<in> set (tags ep). includes (toLowerCase t) q) 15 +
         sum_list (map (term_bonus ep) terms))"

subsection \<open>Example endpoints\<close>

text \<open>
  The two endpoints of the scoring scenario of the specification: \<^verbatim>\<open>GET /users\<close> with the
  operation id \<^verbatim>\<open>getUsers\<close> and \<^verbatim>\<open>GET /users/{id}\<close> with the operation id \<^verbatim>\<open>getUserById\<close>.
\<close>

definition ep_getUsers :: NormalizedEndpoint where
  "ep_getUsers =
     \<lparr>path = ''/users'', method = ''get'', operationId = Some ''getUsers'',
      summary = Some ''Get all users'', description = None, tags = [''users'']\<rparr>"

definition ep_getUserById :: NormalizedEndpoint where
  "ep_getUserById =
     \<lparr>path = ''/users/{id}'', method = ''get'', operationId = Some ''getUserById'',
      summary = Some ''Get user by ID'', description = None, tags = [''users'']\<rparr>"

definition no_filters :: SearchFilters where
  "no_filters = \<lparr>filter_method = None, filter_tag = None\<rparr>"

section \<open>Fetcher: response classification and error wrapping (\<^verbatim>\<open>OpenAPIFetcher\<close>)\<close>

text \<open>\<^verbatim>\<open>isHtmlResponse(data, contentType)\<close>.\<close>

definition isHtmlResponse :: "string \<Rightarrow> string \<Rightarrow> bool" where
  "isHtmlResponse data contentType =
     (let trimmed = toLowerCase (trim data)
      in includes contentType ''text/html'' \<or>
         startsWith trimmed ''<!doctype html'' \<or>
         startsWith trimmed ''<html'' \<or>
         (includes trimmed ''<head'' \<and> includes trimmed ''<body''))"

text \<open>
  The branch that \<^verbatim>\<open>fetch()\<close> takes on a response: the content type is
  \<^verbatim>\<open>response.headers['content-type'] || ''\<close>, and an HTML response goes to
  \<^verbatim>\<open>scrapeSwaggerUI\<close>, any other one to \<^verbatim>\<open>parseResponse\<close> and \<^verbatim>\<open>validateSpec\<close>.
\<close>

datatype fetch_branch = ScrapeSwaggerUI | ParseDirectly

definition fetch_branch_of :: "string option \<Rightarrow> string \<Rightarrow> fetch_branch" where
  "fetch_branch_of content_type_header data =
     (let contentType = (if given content_type_header then the content_type_header else [])
      in if isHtmlResponse data contentType then ScrapeSwaggerUI else ParseDirectly)"

text \<open>
  The classification in the words of the specification: the declared content type
  contains \<^verbatim>\<open>html\<close>, or the trimmed body starts with a doctype or html tag, or the body
  contains both an opening head tag and an opening body tag (tags in any case).
\<close>

definition claimed_html :: "string \<Rightarrow> string \<Rightarrow> bool" where
  "claimed_html data contentType =
     (includes contentType ''html'' \<or>
      startsWith (toLowerCase (trim data)) ''<!doctype html'' \<or>
      startsWith (toLowerCase (trim data)) ''<html'' \<or>
      (includes (toLowerCase data) ''<head'' \<and> includes (toLowerCase data) ''<body''))"

text \<open>The same with the content type test of the code: it contains \<^verbatim>\<open>text/html\<close>.\<close>

definition html_page :: "string \<Rightarrow> string \<Rightarrow> bool" where
  "html_page data contentType =
     (includes contentType ''text/html'' \<or>
      startsWith (toLowerCase (trim data)) ''<!doctype html'' \<or>
      startsWith (toLowerCase (trim data)) ''<html'' \<or>
      (includes (toLowerCase data) ''<head'' \<and> includes (toLowerCase data) ''<body''))"

text \<open>
  Decimal digits of a number, for template literals such as
  \<^verbatim>\<open>`${status} ${statusText}`\<close>; an undefined value prints as \<^verbatim>\<open>undefined\<close>.
\<close>

fun show_nat :: "nat \<Rightarrow> string" where
  "show_nat n =
     (if n < 10 then [''0123456789'' ! n]
      else show_nat (n div 10) @ [''0123456789'' ! (n mod 10)])"

declare show_nat.simps [simp del]

definition template_num :: "nat option \<Rightarrow> string" where
  "template_num x = (case x of None \<Rightarrow> ''undefined'' | Some n \<Rightarrow> show_nat n)"

definition template_str :: "string option \<Rightarrow> string" where
  "template_str x = (case x of None \<Rightarrow> ''undefined'' | Some s \<Rightarrow> s)"

text \<open>
  What \<^verbatim>\<open>handleFetchError(error: unknown)\<close> can be given: an \<^verbatim>\<open>OpenAPIFetchError\<close> (message,
  code, cause), an \<^verbatim>\<open>AxiosError\<close> (message, \<^verbatim>\<open>code\<close>, \<^verbatim>\<open>response?.status\<close>,
  \<^verbatim>\<open>response?.statusText\<close>), another \<^verbatim>\<open>Error\<close>, or a value that is not an \<^verbatim>\<open>Error\<close>.
\<close>

datatype thrown =
    OpenAPIFetchError (message: string) (code: string) (cause: "thrown option")
  | AxiosError (message: string) (axios_code: "string option")
      (response_status: "nat option") (response_statusText: "string option")
  | Error (message: string)
  | NotAnError

fun handleFetchError :: "string \<Rightarrow> thrown \<Rightarrow> thrown" where
  "handleFetchError url (OpenAPIFetchError m c cs) = OpenAPIFetchError m c cs"
| "handleFetchError url (AxiosError m ecode status statusText) =
     (if status = Some 401 \<or> status = Some 403 then
        OpenAPIFetchError
          (''Authentication failed ('' @ template_num status @ '' '' @ template_str statusText @
           ''). '' @
           ''This API requires authentication. Use the authToken parameter: '' @
           [CHR 0x22] @ ''Please analyze the API at [URL] with auth token [YOUR_TOKEN]'' @
           [CHR 0x22])
          ''AUTH_ERROR'' (Some (AxiosError m ecode status statusText))
      else if status = Some 404 then
        OpenAPIFetchError
          (''OpenAPI spec not found at '' @ url @ ''. '' @
           ''Try using the Swagger UI URL (e.g., /swagger-ui.html) and I'' @ [CHR 0x27] @
           ''ll try to find the spec automatically.'')
          ''NOT_FOUND'' (Some (AxiosError m ecode status statusText))
      else if ecode = Some ''ECONNABORTED'' \<or> ecode = Some ''ETIMEDOUT'' then
        OpenAPIFetchError
          (''Request timeout fetching OpenAPI spec from '' @ url)
          ''TIMEOUT'' (Some (AxiosError m ecode status statusText))
      else if ecode = Some ''ENOTFOUND'' \<or> ecode = Some ''ECONNREFUSED'' then
        OpenAPIFetchError
          (''Cannot connect to '' @ url @ '': '' @ template_str ecode)
          ''CONNECTION_ERROR'' (Some (AxiosError m ecode status statusText))
      else
        OpenAPIFetchError
          (''HTTP error fetching OpenAPI spec: '' @ template_num status @ '' '' @
           template_str statusText)
          ''HTTP_ERROR'' (Some (AxiosError m ecode status statusText)))"
| "handleFetchError url (Error m) = OpenAPIFetchError m ''UNKNOWN_ERROR'' (Some (Error m))"
| "handleFetchError url NotAnError =
     OpenAPIFetchError ''Unknown error fetching OpenAPI spec'' ''UNKNOWN_ERROR'' None"


section \<open>Cache (cache/cache.ts: \<^verbatim>\<open>SpecCache\<close>)\<close>

text \<open>
  \<^verbatim>\<open>CacheEntry<T>\<close>; the dates are milliseconds on the clock of the process.
\<close>

record 'd CacheEntry =
  data :: 'd
  createdAt :: nat
  expiresAt :: nat

text \<open>
  What a call of \<^verbatim>\<open>refresh()\<close> can reject with: \<^verbatim>\<open>Error('No refresh callback configured')\<close>,
  \<^verbatim>\<open>Error('Refresh failed')\<close>, or the error that the \<^verbatim>\<open>onRefresh\<close> producer rejected with.
\<close>

datatype 'e refresh_error = NoRefreshCallback | RefreshFailed | ProducerFailed 'e

text \<open>
  Who calls \<^verbatim>\<open>refresh()\<close>: a client (a tool call, the start of the server), or the callback of
  \<^verbatim>\<open>startAutoRefresh\<close>, which is \<^verbatim>\<open>this.refresh().catch((error) => this.logger.error(...))\<close>.
\<close>

datatype caller = Client nat | AutoRefreshTimer

text \<open>
  The state of the promise that one call of \<^verbatim>\<open>refresh()\<close> returned: the call awaits the
  producer (\<^verbatim>\<open>await this.onRefresh()\<close>), or it polls \<^verbatim>\<open>isRefreshing\<close> every 100 ms, or it is
  settled. \<open>Logged\<close> is a rejection inside the auto-refresh callback: its \<^verbatim>\<open>catch\<close> handler
  logs the error and the rejection goes no further.
\<close>

datatype ('d, 'e) promise =
    NotCalled
  | AwaitingProducer
  | Polling
  | Fulfilled 'd
  | Rejected "'e refresh_error"
  | Logged "'e refresh_error"

text \<open>
  The cache object (\<open>cache\<close>, \<open>ttlMs\<close>, \<open>hasOnRefresh\<close>: an \<^verbatim>\<open>onRefresh\<close> callback is
  configured, \<open>isRefreshing\<close>) with the clock \<open>now\<close> read by \<^verbatim>\<open>new Date()\<close>, the number
  \<open>fetches\<close> of invocations of the producer so far, and the promise of each caller.
\<close>

record ('d, 'e) SpecCache =
  cache :: "'d CacheEntry option"
  ttlMs :: nat
  hasOnRefresh :: bool
  isRefreshing :: bool
  now :: nat
  fetches :: nat
  calls :: "caller \<Rightarrow> ('d, 'e) promise"

definition isExpired :: "('d, 'e) SpecCache \<Rightarrow> bool" where
  "isExpired s = (case cache s of None \<Rightarrow> True | Some entry \<Rightarrow> now s > expiresAt entry)"

definition get :: "('d, 'e) SpecCache \<Rightarrow> 'd option" where
  "get s =
     (case cache s of
        None \<Rightarrow> None
      | Some entry \<Rightarrow> if isExpired s then None else Some (data entry))"

definition set_spec :: "'d \<Rightarrow> ('d, 'e) SpecCache \<Rightarrow> ('d, 'e) SpecCache" where
  "set_spec spec s =
     s\<lparr>cache := Some \<lparr>data = spec, createdAt = now s, expiresAt = now s + ttlMs s\<rparr>\<rparr>"

definition clear :: "('d, 'e) SpecCache \<Rightarrow> ('d, 'e) SpecCache" where
  "clear s = s\<lparr>cache := None\<rparr>"

text \<open>The promise of caller \<open>c\<close> rejects with \<open>e\<close>.\<close>

definition reject :: "caller \<Rightarrow> 'e refresh_error \<Rightarrow> ('d, 'e) promise" where
  "reject c e = (if c = AutoRefreshTimer then Logged e else Rejected e)"

text \<open>
  The run-to-completion steps of \<^verbatim>\<open>refresh()\<close> on the event loop.
  \<^item> \<open>Call c\<close>: caller \<open>c\<close> invokes \<^verbatim>\<open>refresh()\<close>, which runs up to its first \<^verbatim>\<open>await\<close>: it throws
    without a callback, starts to poll when a refresh is in flight, and otherwise sets
    \<^verbatim>\<open>isRefreshing\<close> and invokes the producer.
  \<^item> \<open>Settle c r\<close>: the promise of the producer that \<open>c\<close> awaits settles with \<open>r\<close>; on
    success the entry is set, and \<^verbatim>\<open>finally\<close> resets \<^verbatim>\<open>isRefreshing\<close>.
  \<^item> \<open>Wake c\<close>: the 100 ms timer of the polling caller \<open>c\<close> fires; the loop goes on while a
    refresh is in flight, and else the caller reads the slot with \<^verbatim>\<open>get()\<close>.
  \<^item> \<open>Tick n\<close>: \<open>n\<close> milliseconds pass.
\<close>

datatype ('d, 'e) event =
    Call caller
  | Settle caller "'e + 'd"
  | Wake caller
  | Tick nat

fun step :: "('d, 'e) event \<Rightarrow> ('d, 'e) SpecCache \<Rightarrow> ('d, 'e) SpecCache" where
  "step (Call c) s =
     (if \<not> hasOnRefresh s then s\<lparr>calls := (calls s)(c := reject c NoRefreshCallback)\<rparr>
      else if isRefreshing s then s\<lparr>calls := (calls s)(c := Polling)\<rparr>
      else s\<lparr>isRefreshing := True, fetches := fetches s + 1,
             calls := (calls s)(c := AwaitingProducer)\<rparr>)"
| "step (Settle c r) s =
     (case calls s c of
        AwaitingProducer \<Rightarrow>
          (case r of
             Inr spec \<Rightarrow>
               (set_spec spec s)\<lparr>isRefreshing := False, calls := (calls s)(c := Fulfilled spec)\<rparr>
           | Inl e \<Rightarrow>
               s\<lparr>isRefreshing := False, calls := (calls s)(c := reject c (ProducerFailed e))\<rparr>)
      | _ \<Rightarrow> s)"
| "step (Wake c) s =
     (case calls s c of
        Polling \<Rightarrow>
          (if isRefreshing s then s
           else (case get s of
                   Some cached \<Rightarrow> s\<lparr>calls := (calls s)(c := Fulfilled cached)\<rparr>
                 | None \<Rightarrow> s\<lparr>calls := (calls s)(c := reject c RefreshFailed)\<rparr>))
      | _ \<Rightarrow> s)"
| "step (Tick n) s = s\<lparr>now := now s + n\<rparr>"

definition run :: "('d, 'e) event list \<Rightarrow> ('d, 'e) SpecCache \<Rightarrow> ('d, 'e) SpecCache" where
  "run events s = fold step events s"

text \<open>What a polling caller settles with when it reads the slot: the outcome of \<^verbatim>\<open>get()\<close>.\<close>

definition slot_read :: "('d, 'e) SpecCache \<Rightarrow> caller \<Rightarrow> ('d, 'e) promise" where
  "slot_read s c = (case get s of Some cached \<Rightarrow> Fulfilled cached | None \<Rightarrow> reject c RefreshFailed)"

text \<open>
  A cache of ten minutes that holds the description \<^verbatim>\<open>old\<close> since time 0, at time 1000.
\<close>

definition fresh_cache :: "(string, string) SpecCache" where
  "fresh_cache =
     \<lparr>cache = Some \<lparr>data = ''old'', createdAt = 0, expiresAt = 600000\<rparr>, ttlMs = 600000,
      hasOnRefresh = True, isRefreshing = False, now = 1000, fetches = 0,
      calls = (\<lambda>c. NotCalled)\<rparr>"

text \<open>One call of \<^verbatim>\<open>refresh()\<close> whose producer rejects with \<open>e\<close> after \<open>t0\<close> milliseconds.\<close>

definition failing_refresh :: "caller \<Rightarrow> nat \<Rightarrow> 'e \<Rightarrow> ('d, 'e) event list" where
  "failing_refresh c t0 e = [Call c, Tick t0, Settle c (Inl e)]"

text \<open>
  The events that settle a producer, and the events of the timers: a tick of the clock, or
  the 100 ms timer of a polling caller.
\<close>

definition is_settle :: "('d, 'e) event \<Rightarrow> bool" where
  "is_settle ev = (case ev of Settle c r \<Rightarrow> True | _ \<Rightarrow> False)"

definition is_timer :: "('d, 'e) event \<Rightarrow> bool" where
  "is_timer ev = (case ev of Wake c \<Rightarrow> True | Tick n \<Rightarrow> True | _ \<Rightarrow> False)"

text \<open>
  The milliseconds that pass in \<open>evs\<close> until the timer of caller \<open>w\<close> fires for the first
  time, if it does.
\<close>

fun wake_time :: "caller \<Rightarrow> ('d, 'e) event list \<Rightarrow> nat option" where
  "wake_time w [] = None"
| "wake_time w (Tick n # evs) = map_option (\<lambda>t. n + t) (wake_time w evs)"
| "wake_time w (Wake x # evs) = (if x = w then Some 0 else wake_time w evs)"
| "wake_time w (ev # evs) = wake_time w evs"

text \<open>
  Two clients call \<^verbatim>\<open>refresh()\<close>, the second while the call of the first is in flight. The
  timer of the second client fires after 100 ms, with the refresh still in flight; the
  producer rejects after 150 ms; the timer of the second client fires again 50 ms later.
\<close>

definition stale_waiter_events :: "(string, string) event list" where
  "stale_waiter_events =
     [Call (Client 1), Call (Client 2), Tick 100, Wake (Client 2), Tick 50,
      Settle (Client 1) (Inl ''upstream down''), Tick 50, Wake (Client 2)]"

text \<open>
  An empty cache with a time to live of 60 ms (\<^verbatim>\<open>ttlMinutes: 0.001\<close>, as in cache.test.ts).
  Two clients call \<^verbatim>\<open>refresh()\<close>, the producer resolves with \<^verbatim>\<open>new\<close> after 50 ms, and the timer of
  the second client fires 100 ms later.
\<close>

definition short_lived_cache :: "(string, string) SpecCache" where
  "short_lived_cache =
     \<lparr>cache = None, ttlMs = 60, hasOnRefresh = True, isRefreshing = False, now = 1000,
      fetches = 0, calls = (\<lambda>c. NotCalled)\<rparr>"

definition expired_waiter_events :: "(string, string) event list" where
  "expired_waiter_events =
     [Call (Client 1), Call (Client 2), Tick 50, Settle (Client 1) (Inr ''new''), Tick 100,
      Wake (Client 2)]"

text \<open>A run on \<^const>\<open>fresh_cache\<close>: a refresh fails and ten minutes pass.\<close>

definition expired_after_failure_run :: "(string, string) SpecCache" where
  "expired_after_failure_run =
     run (failing_refresh (Client 1) 0 ''upstream down'' @ [Tick 600000]) fresh_cache"


section \<open>Parser (parser/parser.ts: \<^verbatim>\<open>OpenAPIParser\<close>)\<close>

subsection \<open>The raw document and the JavaScript operations on it\<close>

text \<open>
  The raw specification document is the untyped tree that \<^verbatim>\<open>JSON.parse\<close> or \<^verbatim>\<open>yaml.load\<close>
  returned. The parser reads it through casts, so the model reads the tree as JavaScript
  does and a \<^verbatim>\<open>TypeError\<close> of the code is a result \<^term>\<open>None\<close> of the model.
  \<^item> \<open>JObj kvs\<close> is a plain object: \<open>kvs\<close> are its own properties in enumeration order,
    with distinct keys. Members inherited from \<^verbatim>\<open>Object.prototype\<close> are not modelled.
  \<^item> \<open>JNum\<close> holds an integer; the parser copies and tests numbers and never computes
    with them.
  \<^item> \<open>JUndefined\<close> is \<^verbatim>\<open>undefined\<close>, the value of a property that is not there.
\<close>

datatype json =
    JUndefined
  | JNull
  | JBool bool
  | JNum int
  | JStr string
  | JArr "json list"
  | JObj "(string \<times> json) list"

text \<open>The truth value of a value in a condition, \<^verbatim>\<open>a || b\<close>, and \<^verbatim>\<open>v == null\<close>.\<close>

definition truthy :: "json \<Rightarrow> bool" where
  "truthy v =
     (case v of
        JUndefined \<Rightarrow> False
      | JNull \<Rightarrow> False
      | JBool b \<Rightarrow> b
      | JNum n \<Rightarrow> n \<noteq> 0
      | JStr s \<Rightarrow> s \<noteq> []
      | JArr xs \<Rightarrow> True
      | JObj kvs \<Rightarrow> True)"

definition or_else :: "json \<Rightarrow> json \<Rightarrow> json" where
  "or_else a b = (if truthy a then a else b)"

definition nullish :: "json \<Rightarrow> bool" where
  "nullish v = (v = JUndefined \<or> v = JNull)"

text \<open>The index keys \<^verbatim>\<open>"0"\<close>, \<^verbatim>\<open>"1"\<close>, ... of an array or a string of length \<open>n\<close>.\<close>

definition index_keys :: "nat \<Rightarrow> string list" where
  "index_keys n = map show_nat [0..<n]"

text \<open>
  The own enumerable properties of a value that is not \<^verbatim>\<open>null\<close> or \<^verbatim>\<open>undefined\<close>, as
  \<^verbatim>\<open>Object.entries\<close> lists them.
\<close>

definition own_entries :: "json \<Rightarrow> (string \<times> json) list" where
  "own_entries v =
     (case v of
        JObj kvs \<Rightarrow> kvs
      | JArr xs \<Rightarrow> zip (index_keys (length xs)) xs
      | JStr s \<Rightarrow> zip (index_keys (length s)) (map (\<lambda>c. JStr [c]) s)
      | _ \<Rightarrow> [])"

text \<open>\<^verbatim>\<open>Object.entries(v)\<close>: a \<^verbatim>\<open>TypeError\<close> on \<^verbatim>\<open>null\<close> and \<^verbatim>\<open>undefined\<close>.\<close>

definition entries :: "json \<Rightarrow> (string \<times> json) list option" where
  "entries v = (if nullish v then None else Some (own_entries v))"

text \<open>
  \<^verbatim>\<open>v[k]\<close> and \<^verbatim>\<open>v.k\<close> on a value that is not \<^verbatim>\<open>null\<close> or \<^verbatim>\<open>undefined\<close>: an own property, the
  \<^verbatim>\<open>length\<close> of an array or a string, and \<^verbatim>\<open>undefined\<close> else.
\<close>

definition property :: "json \<Rightarrow> string \<Rightarrow> json" where
  "property v k =
     (case v of
        JArr xs \<Rightarrow>
          if k = ''length'' then JNum (int (length xs))
          else (case map_of (own_entries v) k of Some x \<Rightarrow> x | None \<Rightarrow> JUndefined)
      | JStr s \<Rightarrow>
          if k = ''length'' then JNum (int (length s))
          else (case map_of (own_entries v) k of Some x \<Rightarrow> x | None \<Rightarrow> JUndefined)
      | _ \<Rightarrow> (case map_of (own_entries v) k of Some x \<Rightarrow> x | None \<Rightarrow> JUndefined))"

text \<open>\<^verbatim>\<open>v.k\<close> on any value: a \<^verbatim>\<open>TypeError\<close> on \<^verbatim>\<open>null\<close> and \<^verbatim>\<open>undefined\<close>.\<close>

definition read_prop :: "json \<Rightarrow> string \<Rightarrow> json option" where
  "read_prop v k = (if nullish v then None else Some (property v k))"

text \<open>The optional chain \<^verbatim>\<open>v?.k\<close>.\<close>

definition opt_prop :: "json \<Rightarrow> string \<Rightarrow> json" where
  "opt_prop v k = (if nullish v then JUndefined else property v k)"

text \<open>\<^verbatim>\<open>k in v\<close>: a \<^verbatim>\<open>TypeError\<close> unless \<open>v\<close> is an object or an array.\<close>

definition has_key :: "string \<Rightarrow> json \<Rightarrow> bool option" where
  "has_key k v =
     (case v of
        JObj kvs \<Rightarrow> Some (k \<in> set (map fst kvs))
      | JArr xs \<Rightarrow> Some (k = ''length'' \<or> k \<in> set (index_keys (length xs)))
      | _ \<Rightarrow> None)"

text \<open>
  The elements that a spread \<^verbatim>\<open>[...v]\<close> or a loop \<^verbatim>\<open>for (const x of v)\<close> visits: a
  \<^verbatim>\<open>TypeError\<close> unless \<open>v\<close> is an array or a string.
\<close>

definition iterate :: "json \<Rightarrow> json list option" where
  "iterate v =
     (case v of
        JArr xs \<Rightarrow> Some xs
      | JStr s \<Rightarrow> Some (map (\<lambda>c. JStr [c]) s)
      | _ \<Rightarrow> None)"

text \<open>The elements of an array whose method (\<^verbatim>\<open>map\<close>) is called: a \<^verbatim>\<open>TypeError\<close> on any other value.\<close>

definition array_elements :: "json \<Rightarrow> json list option" where
  "array_elements v = (case v of JArr xs \<Rightarrow> Some xs | _ \<Rightarrow> None)"

text \<open>The string of a value inside a template literal \<^verbatim>\<open>`${v}`\<close>.\<close>

definition show_int :: "int \<Rightarrow> string" where
  "show_int n = (if n < 0 then ''-'' @ show_nat (nat (- n)) else show_nat (nat n))"

fun join_comma :: "string list \<Rightarrow> string" where
  "join_comma [] = []"
| "join_comma [s] = s"
| "join_comma (s # t # ts) = s @ '','' @ join_comma (t # ts)"

fun to_string :: "json \<Rightarrow> string" where
  "to_string JUndefined = ''undefined''"
| "to_string JNull = ''null''"
| "to_string (JBool b) = (if b then ''true'' else ''false'')"
| "to_string (JNum n) = show_int n"
| "to_string (JStr s) = s"
| "to_string (JArr xs) =
     join_comma (map (\<lambda>x. if x = JUndefined \<or> x = JNull then [] else to_string x) xs)"
| "to_string (JObj kvs) = ''[object Object]''"

text \<open>\<^verbatim>\<open>s.split('/')\<close>.\<close>

fun split_on :: "char \<Rightarrow> string \<Rightarrow> string list" where
  "split_on sep [] = [[]]"
| "split_on sep (c # cs) =
     (if c = sep then [] # split_on sep cs
      else (case split_on sep cs of
              piece # pieces \<Rightarrow> (c # piece) # pieces
            | [] \<Rightarrow> [[c]]))"

subsection \<open>The normalized types (parser/types.ts)\<close>

text \<open>
  \<^verbatim>\<open>NormalizedSchema\<close>. The fields that hold one raw value are the record
  \<open>schema_fields\<close>; a field that the code does not set is \<^term>\<open>JUndefined\<close>. The fields
  that hold schemas are the arguments of the constructor \<open>NormalizedSchema\<close>:
  \<^verbatim>\<open>properties\<close> (in the order of insertion), \<^verbatim>\<open>items\<close>, \<^verbatim>\<open>oneOf\<close>, \<^verbatim>\<open>anyOf\<close> and \<^verbatim>\<open>allOf\<close>.
\<close>

record schema_fields =
  s_type :: json
  s_format :: json
  s_description :: json
  s_required :: json
  s_enum :: json
  s_default :: json
  s_example :: json
  s_minimum :: json
  s_maximum :: json
  s_minLength :: json
  s_maxLength :: json
  s_pattern :: json
  s_nullable :: json
  s_ref :: json

datatype NormalizedSchema =
  NormalizedSchema
    (s_fields: schema_fields)
    (s_properties: "(string \<times> NormalizedSchema) list option")
    (s_items: "NormalizedSchema option")
    (s_oneOf: "NormalizedSchema list option")
    (s_anyOf: "NormalizedSchema list option")
    (s_allOf: "NormalizedSchema list option")

definition no_fields :: schema_fields where
  "no_fields =
     \<lparr>s_type = JUndefined, s_format = JUndefined, s_description = JUndefined,
      s_required = JUndefined, s_enum = JUndefined, s_default = JUndefined,
      s_example = JUndefined, s_minimum = JUndefined, s_maximum = JUndefined,
      s_minLength = JUndefined, s_maxLength = JUndefined, s_pattern = JUndefined,
      s_nullable = JUndefined, s_ref = JUndefined\<rparr>"

text \<open>The opaque stub \<^verbatim>\<open>{ type: 'object' }\<close>.\<close>

definition object_stub :: NormalizedSchema where
  "object_stub = NormalizedSchema (no_fields\<lparr>s_type := JStr ''object''\<rparr>) None None None None None"

text \<open>The object spread \<^verbatim>\<open>{ ...schema, ref: refPath }\<close>.\<close>

definition with_ref :: "json \<Rightarrow> NormalizedSchema \<Rightarrow> NormalizedSchema" where
  "with_ref refPath schema =
     (case schema of
        NormalizedSchema fs props its ones anys alls \<Rightarrow>
          NormalizedSchema (fs\<lparr>s_ref := refPath\<rparr>) props its ones anys alls)"

subsection \<open>Schemas\<close>

text \<open>
  \<^verbatim>\<open>resolveRef(ref)\<close>: the value at the path of a local reference \<^verbatim>\<open>#/a/b/c\<close> in the document,
  \<^verbatim>\<open>undefined\<close> for any other reference and for a path that leaves the document, and a
  \<^verbatim>\<open>TypeError\<close> for a reference that is not a string.
\<close>

fun walk_path :: "json \<Rightarrow> string list \<Rightarrow> json" where
  "walk_path current [] = current"
| "walk_path current (part # parts) =
     (if truthy current \<and> has_key part current = Some True
      then walk_path (property current part) parts
      else JUndefined)"

definition resolveRef :: "json \<Rightarrow> json \<Rightarrow> json option" where
  "resolveRef spec ref =
     (case ref of
        JStr r \<Rightarrow>
          if \<not> startsWith r ''#/'' then Some JUndefined
          else Some (walk_path spec (split_on CHR ''/'' (drop 2 r)))
      | _ \<Rightarrow> None)"

text \<open>\<^verbatim>\<open>getSchemaType(schema)\<close>.\<close>

definition getSchemaType :: "json \<Rightarrow> json option" where
  "getSchemaType schema =
     (if truthy (property schema ''type'') then
        Some (case property schema ''type'' of
                JArr ts \<Rightarrow> property (JArr ts) ''0''
              | t \<Rightarrow> t)
      else if truthy (property schema ''properties'') then Some (JStr ''object'')
      else do {
        hasItems \<leftarrow> has_key ''items'' schema;
        if hasItems then Some (JStr ''array'')
        else if truthy (property schema ''enum'') then Some (JStr ''string'')
        else Some (JStr ''object'')
      })"

text \<open>A field that is set only when the raw value is truthy: \<^verbatim>\<open>if (schema.f) normalized.f = schema.f\<close>.\<close>

definition when_truthy :: "json \<Rightarrow> json" where
  "when_truthy v = (if truthy v then v else JUndefined)"

text \<open>
  \<^verbatim>\<open>normalizeSchema(schema, depth)\<close> on the document \<open>spec\<close> of the parser. Every recursive
  call is made at \<open>depth + 1\<close> and below the test \<^verbatim>\<open>depth > 10\<close>.
\<close>

function normalizeSchema :: "json \<Rightarrow> bool \<Rightarrow> json \<Rightarrow> nat \<Rightarrow> NormalizedSchema option" where
  "normalizeSchema spec isV3 schema depth =
     (if depth > 10 \<or> \<not> truthy schema then Some object_stub
      else do {
        hasRef \<leftarrow> has_key ''$ref'' schema;
        if hasRef \<and> truthy (property schema ''$ref'') then do {
          resolved \<leftarrow> resolveRef spec (property schema ''$ref'');
          if truthy resolved then do {
            normalized \<leftarrow> normalizeSchema spec isV3 resolved (depth + 1);
            Some (with_ref (property schema ''$ref'') normalized)
          }
          else Some (with_ref (property schema ''$ref'') object_stub)
        }
        else do {
          type \<leftarrow> getSchemaType schema;
          items \<leftarrow>
            (if property schema ''type'' = JStr ''array'' \<and> truthy (property schema ''items'')
             then map_option Some (normalizeSchema spec isV3 (property schema ''items'') (depth + 1))
             else Some None);
          properties \<leftarrow>
            (if (property schema ''type'' = JStr ''object'' \<or> truthy (property schema ''properties''))
                \<and> truthy (property schema ''properties'')
             then map_option Some
                    (those (map (\<lambda>(propName, propSchema).
                                   map_option (Pair propName)
                                     (normalizeSchema spec isV3 propSchema (depth + 1)))
                              (own_entries (property schema ''properties''))))
             else Some None);
          hasOneOf \<leftarrow> has_key ''oneOf'' schema;
          oneOf \<leftarrow>
            (if hasOneOf \<and> truthy (property schema ''oneOf'') then do {
               alternatives \<leftarrow> array_elements (property schema ''oneOf'');
               map_option Some
                 (those (map (\<lambda>s. normalizeSchema spec isV3 s (depth + 1)) alternatives))
             }
             else Some None);
          hasAnyOf \<leftarrow> has_key ''anyOf'' schema;
          anyOf \<leftarrow>
            (if hasAnyOf \<and> truthy (property schema ''anyOf'') then do {
               alternatives \<leftarrow> array_elements (property schema ''anyOf'');
               map_option Some
                 (those (map (\<lambda>s. normalizeSchema spec isV3 s (depth + 1)) alternatives))
             }
             else Some None);
          hasAllOf \<leftarrow> has_key ''allOf'' schema;
          allOf \<leftarrow>
            (if hasAllOf \<and> truthy (property schema ''allOf'') then do {
               alternatives \<leftarrow> array_elements (property schema ''allOf'');
               map_option Some
                 (those (map (\<lambda>s. normalizeSchema spec isV3 s (depth + 1)) alternatives))
             }
             else Some None);
          Some (NormalizedSchema
                  \<lparr>s_type = type,
                   s_format = when_truthy (property schema ''format''),
                   s_description = when_truthy (property schema ''description''),
                   s_required =
                     (if property schema ''type'' = JStr ''object'' \<or> truthy (property schema ''properties'')
                      then when_truthy (property schema ''required'') else JUndefined),
                   s_enum = when_truthy (property schema ''enum''),
                   s_default = property schema ''default'',
                   s_example = property schema ''example'',
                   s_minimum = property schema ''minimum'',
                   s_maximum = property schema ''maximum'',
                   s_minLength = property schema ''minLength'',
                   s_maxLength = property schema ''maxLength'',
                   s_pattern = when_truthy (property schema ''pattern''),
                   s_nullable =
                     (if isV3 \<and> truthy (property schema ''nullable'') then JBool True else JUndefined),
                   s_ref = JUndefined\<rparr>
                  properties items oneOf anyOf allOf)
        }
      })"
  by pat_completeness auto
termination
  by (relation "measure (\<lambda>(spec, isV3, schema, depth). 11 - depth)") auto

declare normalizeSchema.simps [simp del]


subsection \<open>The normalized description\<close>

text \<open>
  The interfaces of parser/types.ts as the parser fills them. A field that the parser copies
  from the document holds the raw value (\<^term>\<open>JUndefined\<close> when the document has none).
  The object that \<^verbatim>\<open>parseOperation\<close> returns (a \<^verbatim>\<open>NormalizedEndpoint\<close>) is the record
  \<open>Endpoint\<close>.
\<close>

record NormalizedParameter =
  p_name :: json
  p_description :: json
  p_required :: json
  p_deprecated :: json
  p_schema :: NormalizedSchema
  p_example :: json

record NormalizedRequestBody =
  rb_description :: json
  rb_required :: json
  rb_contentTypes :: "string list"
  rb_schema :: NormalizedSchema
  rb_examples :: json

record NormalizedResponse =
  r_statusCode :: string
  r_description :: json
  r_contentTypes :: "string list"
  r_schema :: "NormalizedSchema option"

record NormalizedSecurity =
  sec_type :: string
  sec_name :: string
  sec_in :: json
  sec_scheme :: json
  sec_description :: json
  sec_scopes :: json

record Endpoint =
  e_path :: string
  e_method :: string
  e_operationId :: json
  e_summary :: json
  e_description :: json
  e_tags :: json
  e_deprecated :: json
  pathParameters :: "NormalizedParameter list"
  queryParameters :: "NormalizedParameter list"
  headerParameters :: "NormalizedParameter list"
  cookieParameters :: "NormalizedParameter list"
  requestBody :: "NormalizedRequestBody option"
  responses :: "NormalizedResponse list"
  security :: "NormalizedSecurity list"

record Server =
  server_url :: json
  server_description :: json

record NormalizedApiSpec =
  title :: json
  version :: json
  api_description :: json
  baseUrl :: json
  servers :: "Server list"
  endpoints :: "Endpoint list"
  securitySchemes :: "(string \<times> NormalizedSecurity) list"
  totalEndpoints :: nat
  fetchedAt :: string
  sourceUrl :: string
  specVersion :: string

text \<open>
  The fields of \<^verbatim>\<open>FetchResult\<close> that \<^verbatim>\<open>parse\<close> reads; \<open>fr_fetchedAt\<close> is the fetch time as
  \<^verbatim>\<open>toISOString()\<close> prints it.
\<close>

record FetchResult =
  fr_spec :: json
  fr_fetchedAt :: string
  fr_sourceUrl :: string
  fr_specVersion :: string

subsection \<open>Base URL and servers\<close>

text \<open>\<^verbatim>\<open>getBaseUrl()\<close>; \<open>isV3\<close> is the flag \<^verbatim>\<open>'openapi' in this.spec\<close>.\<close>

definition getBaseUrl :: "json \<Rightarrow> bool \<Rightarrow> json" where
  "getBaseUrl spec isV3 =
     (if isV3 then opt_prop (opt_prop (property spec ''servers'') ''0'') ''url''
      else if truthy (property spec ''host'') then
        (let scheme = or_else (opt_prop (property spec ''schemes'') ''0'') (JStr ''https'');
             basePath = or_else (property spec ''basePath'') (JStr [])
         in JStr (to_string scheme @ ''://'' @ to_string (property spec ''host'') @
                  to_string basePath))
      else JUndefined)"

text \<open>\<^verbatim>\<open>getServers()\<close>.\<close>

definition getServers :: "json \<Rightarrow> bool \<Rightarrow> Server list option" where
  "getServers spec isV3 =
     (if isV3 then do {
        declared \<leftarrow> array_elements (or_else (property spec ''servers'') (JArr []));
        those (map (\<lambda>s. do {
                      url \<leftarrow> read_prop s ''url'';
                      Some \<lparr>server_url = url, server_description = property s ''description''\<rparr>
                    }) declared)
      }
      else (let base = getBaseUrl spec isV3
            in if truthy base then Some [\<lparr>server_url = base, server_description = JUndefined\<rparr>]
               else Some []))"

subsection \<open>Parameters\<close>

text \<open>\<^verbatim>\<open>normalizeParameter(param)\<close>; \<open>param\<close> is an object or an array.\<close>

definition normalizeParameter :: "json \<Rightarrow> bool \<Rightarrow> json \<Rightarrow> NormalizedParameter option" where
  "normalizeParameter spec isV3 param = do {
     schema \<leftarrow>
       (if isV3 then normalizeSchema spec isV3 (property param ''schema'') 0
        else Some (NormalizedSchema
                     (no_fields\<lparr>s_type := or_else (property param ''type'') (JStr ''string''),
                                s_format := property param ''format'',
                                s_enum := property param ''enum'',
                                s_default := property param ''default''\<rparr>)
                     None None None None None));
     Some \<lparr>p_name = property param ''name'',
           p_description = property param ''description'',
           p_required = or_else (property param ''required'') (JBool False),
           p_deprecated = or_else (property param ''deprecated'') (JBool False),
           p_schema = schema,
           p_example = property param ''example''\<rparr>
   }"

text \<open>\<^verbatim>\<open>filterParameters(params, location)\<close>.\<close>

definition filterParameters ::
  "json \<Rightarrow> bool \<Rightarrow> json list \<Rightarrow> string \<Rightarrow> NormalizedParameter list option" where
  "filterParameters spec isV3 params location =
     those (map (normalizeParameter spec isV3)
              (filter (\<lambda>p. property p ''in'' = JStr location) params))"

text \<open>
  The loop of \<^verbatim>\<open>parseOperation\<close> over \<^verbatim>\<open>allParams\<close> that fills \<^verbatim>\<open>paramMap\<close>, a \<^verbatim>\<open>Map\<close> from the
  key \<^verbatim>\<open>`${param.in}:${param.name}`\<close> to the parameter: \<^verbatim>\<open>Map.set\<close> replaces the value of a key
  that is there, in its place, and appends a new key.
\<close>

definition param_key :: "json \<Rightarrow> string" where
  "param_key param = to_string (property param ''in'') @ '':'' @ to_string (property param ''name'')"

fun collect_parameters :: "json list \<Rightarrow> (string \<times> json) list \<Rightarrow> (string \<times> json) list option" where
  "collect_parameters [] paramMap = Some paramMap"
| "collect_parameters (param # allParams) paramMap = do {
     isRef \<leftarrow> has_key ''$ref'' param;
     if isRef then collect_parameters allParams paramMap
     else collect_parameters allParams (AList.update (param_key param) param paramMap)
   }"

subsection \<open>Request body, responses and security\<close>

text \<open>The key \<^verbatim>\<open>contentTypes[0]\<close> of a property read; \<^verbatim>\<open>undefined\<close> reads the key \<^verbatim>\<open>"undefined"\<close>.\<close>

definition first_key :: "string list \<Rightarrow> string" where
  "first_key contentTypes = (case contentTypes of [] \<Rightarrow> ''undefined'' | k # ks \<Rightarrow> k)"

text \<open>\<^verbatim>\<open>parameters.find((p) => p.in === 'body')\<close>.\<close>

fun find_body :: "json list \<Rightarrow> json option" where
  "find_body [] = Some JUndefined"
| "find_body (p # ps) =
     (if nullish p then None
      else if property p ''in'' = JStr ''body'' then Some p
      else find_body ps)"

text \<open>
  \<^verbatim>\<open>parseRequestBody(operation)\<close>: \<^term>\<open>Some None\<close> is the result \<^verbatim>\<open>undefined\<close>.
\<close>

definition parseRequestBody :: "json \<Rightarrow> bool \<Rightarrow> json \<Rightarrow> NormalizedRequestBody option option" where
  "parseRequestBody spec isV3 operation =
     (if isV3 then
        (let body = property operation ''requestBody''
         in if \<not> truthy (opt_prop body ''content'') then Some None
            else
              (let contentTypes = map fst (own_entries (property body ''content''));
                   firstContent = property (property body ''content'') (first_key contentTypes)
               in do {
                 schema \<leftarrow> normalizeSchema spec isV3 (opt_prop firstContent ''schema'') 0;
                 Some (Some \<lparr>rb_description = property body ''description'',
                             rb_required = or_else (property body ''required'') (JBool False),
                             rb_contentTypes = contentTypes,
                             rb_schema = schema,
                             rb_examples = opt_prop firstContent ''examples''\<rparr>)
               }))
      else do {
        bodyParam \<leftarrow>
          (if nullish (property operation ''parameters'') then Some JUndefined
           else do {
             ps \<leftarrow> array_elements (property operation ''parameters'');
             find_body ps
           });
        if \<not> truthy (opt_prop bodyParam ''schema'') then Some None
        else do {
          schema \<leftarrow> normalizeSchema spec isV3 (property bodyParam ''schema'') 0;
          Some (Some \<lparr>rb_description = property bodyParam ''description'',
                      rb_required = or_else (property bodyParam ''required'') (JBool False),
                      rb_contentTypes = [''application/json''],
                      rb_schema = schema,
                      rb_examples = JUndefined\<rparr>)
        }
      })"

text \<open>One response of \<^verbatim>\<open>parseResponses\<close>, and its loop over \<^verbatim>\<open>Object.entries(responses)\<close>.\<close>

definition normalizeResponse :: "json \<Rightarrow> bool \<Rightarrow> string \<Rightarrow> json \<Rightarrow> NormalizedResponse option" where
  "normalizeResponse spec isV3 statusCode resp =
     (if isV3 then
        (let content = property resp ''content'';
             contentTypes = (if truthy content then map fst (own_entries content) else []);
             firstContent = opt_prop content (first_key contentTypes)
         in do {
           schema \<leftarrow>
             (if truthy (opt_prop firstContent ''schema'')
              then map_option Some (normalizeSchema spec isV3 (property firstContent ''schema'') 0)
              else Some None);
           Some \<lparr>r_statusCode = statusCode,
                 r_description = or_else (property resp ''description'') (JStr []),
                 r_contentTypes = contentTypes,
                 r_schema = schema\<rparr>
         })
      else do {
        schema \<leftarrow>
          (if truthy (property resp ''schema'')
           then map_option Some (normalizeSchema spec isV3 (property resp ''schema'') 0)
           else Some None);
        Some \<lparr>r_statusCode = statusCode,
              r_description = or_else (property resp ''description'') (JStr []),
              r_contentTypes = [''application/json''],
              r_schema = schema\<rparr>
      })"

fun responses_loop :: "json \<Rightarrow> bool \<Rightarrow> (string \<times> json) list \<Rightarrow> NormalizedResponse list option" where
  "responses_loop spec isV3 [] = Some []"
| "responses_loop spec isV3 ((statusCode, response) # rest) =
     (if \<not> truthy response then responses_loop spec isV3 rest
      else do {
        isRef \<leftarrow> has_key ''$ref'' response;
        if isRef then responses_loop spec isV3 rest
        else do {
          r \<leftarrow> normalizeResponse spec isV3 statusCode response;
          rs \<leftarrow> responses_loop spec isV3 rest;
          Some (r # rs)
        }
      })"

definition parseResponses :: "json \<Rightarrow> bool \<Rightarrow> json \<Rightarrow> NormalizedResponse list option" where
  "parseResponses spec isV3 resps =
     (if \<not> truthy resps then Some [] else responses_loop spec isV3 (own_entries resps))"

text \<open>\<^verbatim>\<open>normalizeSecurityScheme\<close> and \<^verbatim>\<open>normalizeSecuritySchemeV2\<close>: the \<^verbatim>\<open>switch\<close> on \<^verbatim>\<open>scheme.type\<close>.\<close>

definition normalizeSecurityScheme :: "string \<Rightarrow> json \<Rightarrow> NormalizedSecurity" where
  "normalizeSecurityScheme name scheme =
     (let t = property scheme ''type'';
          unknown = \<lparr>sec_type = ''unknown'', sec_name = name, sec_in = JUndefined,
                     sec_scheme = JUndefined,
                     sec_description = property scheme ''description'',
                     sec_scopes = JUndefined\<rparr>
      in if t = JStr ''apiKey'' then
           unknown\<lparr>sec_type := ''apiKey'', sec_in := property scheme ''in''\<rparr>
         else if t = JStr ''http'' then
           unknown\<lparr>sec_type := (if property scheme ''scheme'' = JStr ''bearer'' then ''bearer''
                                  else ''http''),
                     sec_scheme := property scheme ''scheme''\<rparr>
         else if t = JStr ''oauth2'' then unknown\<lparr>sec_type := ''oauth2''\<rparr>
         else if t = JStr ''openIdConnect'' then unknown\<lparr>sec_type := ''openIdConnect''\<rparr>
         else unknown)"

definition normalizeSecuritySchemeV2 :: "string \<Rightarrow> json \<Rightarrow> NormalizedSecurity" where
  "normalizeSecuritySchemeV2 name scheme =
     (let t = property scheme ''type'';
          unknown = \<lparr>sec_type = ''unknown'', sec_name = name, sec_in = JUndefined,
                     sec_scheme = JUndefined,
                     sec_description = property scheme ''description'',
                     sec_scopes = JUndefined\<rparr>
      in if t = JStr ''apiKey'' then
           unknown\<lparr>sec_type := ''apiKey'', sec_in := property scheme ''in''\<rparr>
         else if t = JStr ''basic'' then unknown\<lparr>sec_type := ''basic''\<rparr>
         else if t = JStr ''oauth2'' then unknown\<lparr>sec_type := ''oauth2''\<rparr>
         else unknown)"

text \<open>\<^verbatim>\<open>getSecurityScheme(name)\<close>: \<^term>\<open>None\<close> is the result \<^verbatim>\<open>undefined\<close>.\<close>

definition getSecurityScheme :: "json \<Rightarrow> bool \<Rightarrow> string \<Rightarrow> NormalizedSecurity option" where
  "getSecurityScheme spec isV3 name =
     (if isV3 then
        (let scheme = opt_prop (opt_prop (property spec ''components'') ''securitySchemes'') name
         in if \<not> truthy scheme then None else Some (normalizeSecurityScheme name scheme))
      else
        (let scheme = opt_prop (property spec ''securityDefinitions'') name
         in if \<not> truthy scheme then None else Some (normalizeSecuritySchemeV2 name scheme)))"

text \<open>\<^verbatim>\<open>parseSecurity(security)\<close>; a requirement whose scheme is not defined is dropped.\<close>

definition parseSecurity :: "json \<Rightarrow> bool \<Rightarrow> json \<Rightarrow> NormalizedSecurity list option" where
  "parseSecurity spec isV3 secs =
     (if \<not> truthy secs then Some []
      else do {
        requirements \<leftarrow> iterate secs;
        resolved \<leftarrow>
          those (map (\<lambda>requirement. do {
                        named \<leftarrow> entries requirement;
                        Some (List.map_filter
                                (\<lambda>(name, scopes).
                                   map_option (\<lambda>scheme. scheme\<lparr>sec_scopes := scopes\<rparr>)
                                     (getSecurityScheme spec isV3 name))
                                named)
                      }) requirements);
        Some (concat resolved)
      })"

text \<open>\<^verbatim>\<open>parseSecuritySchemes()\<close>: the loops over the declared schemes.\<close>

fun security_schemes_v3 :: "(string \<times> json) list \<Rightarrow> (string \<times> NormalizedSecurity) list option" where
  "security_schemes_v3 [] = Some []"
| "security_schemes_v3 ((name, scheme) # rest) = do {
     isRef \<leftarrow> has_key ''$ref'' scheme;
     schemes \<leftarrow> security_schemes_v3 rest;
     Some (if isRef then schemes else (name, normalizeSecurityScheme name scheme) # schemes)
   }"

fun security_schemes_v2 :: "(string \<times> json) list \<Rightarrow> (string \<times> NormalizedSecurity) list option" where
  "security_schemes_v2 [] = Some []"
| "security_schemes_v2 ((name, scheme) # rest) =
     (if nullish scheme then None
      else do {
        schemes \<leftarrow> security_schemes_v2 rest;
        Some ((name, normalizeSecuritySchemeV2 name scheme) # schemes)
      })"

definition parseSecuritySchemes :: "json \<Rightarrow> bool \<Rightarrow> (string \<times> NormalizedSecurity) list option" where
  "parseSecuritySchemes spec isV3 =
     (if isV3 then
        security_schemes_v3
          (own_entries
             (or_else (opt_prop (property spec ''components'') ''securitySchemes'') (JObj [])))
      else
        security_schemes_v2
          (own_entries (or_else (property spec ''securityDefinitions'') (JObj []))))"

subsection \<open>Operations and the whole document\<close>

text \<open>\<^verbatim>\<open>parseOperation(path, method, operation, pathItem)\<close>.\<close>

definition parseOperation :: "json \<Rightarrow> bool \<Rightarrow> string \<Rightarrow> string \<Rightarrow> json \<Rightarrow> json \<Rightarrow> Endpoint option" where
  "parseOperation spec isV3 path_key method_key operation pathItem = do {
     pathParams \<leftarrow> iterate (or_else (property pathItem ''parameters'') (JArr []));
     opParams \<leftarrow> iterate (or_else (property operation ''parameters'') (JArr []));
     paramMap \<leftarrow> collect_parameters (pathParams @ opParams) [];
     let parameters = map snd paramMap;
     inPath \<leftarrow> filterParameters spec isV3 parameters ''path'';
     inQuery \<leftarrow> filterParameters spec isV3 parameters ''query'';
     inHeader \<leftarrow> filterParameters spec isV3 parameters ''header'';
     inCookie \<leftarrow> filterParameters spec isV3 parameters ''cookie'';
     body \<leftarrow> parseRequestBody spec isV3 operation;
     resps \<leftarrow> parseResponses spec isV3 (property operation ''responses'');
     secs \<leftarrow> parseSecurity spec isV3 (property operation ''security'');
     Some \<lparr>e_path = path_key,
           e_method = method_key,
           e_operationId = property operation ''operationId'',
           e_summary = property operation ''summary'',
           e_description = property operation ''description'',
           e_tags = or_else (property operation ''tags'') (JArr []),
           e_deprecated = or_else (property operation ''deprecated'') (JBool False),
           pathParameters = inPath,
           queryParameters = inQuery,
           headerParameters = inHeader,
           cookieParameters = inCookie,
           requestBody = body,
           responses = resps,
           security = secs\<rparr>
   }"

text \<open>
  \<^verbatim>\<open>parseEndpoints()\<close>: every path, every one of the eight methods that the path item has; an
  operation whose \<^verbatim>\<open>parseOperation\<close> throws is skipped.
\<close>

definition http_methods :: "string list" where
  "http_methods = [''get'', ''post'', ''put'', ''patch'', ''delete'', ''options'', ''head'', ''trace'']"

definition parseEndpoints :: "json \<Rightarrow> bool \<Rightarrow> Endpoint list" where
  "parseEndpoints spec isV3 =
     concat
       (map (\<lambda>(path_key, pathItem).
               if \<not> truthy pathItem then []
               else concat
                      (map (\<lambda>method_key.
                              let operation = property pathItem method_key
                              in if \<not> truthy operation then []
                                 else (case parseOperation spec isV3 path_key method_key
                                               operation pathItem of
                                         Some endpoint \<Rightarrow> [endpoint]
                                       | None \<Rightarrow> []))
                         http_methods))
          (own_entries (or_else (property spec ''paths'') (JObj []))))"

text \<open>\<^verbatim>\<open>parse(fetchResult)\<close>.\<close>

definition parse :: "FetchResult \<Rightarrow> NormalizedApiSpec option" where
  "parse fetchResult = do {
     let spec = fr_spec fetchResult;
     isV3 \<leftarrow> has_key ''openapi'' spec;
     let parsed = parseEndpoints spec isV3;
     schemes \<leftarrow> parseSecuritySchemes spec isV3;
     info_title \<leftarrow> read_prop (property spec ''info'') ''title'';
     declared \<leftarrow> getServers spec isV3;
     Some \<lparr>title = info_title,
           version = property (property spec ''info'') ''version'',
           api_description = property (property spec ''info'') ''description'',
           baseUrl = getBaseUrl spec isV3,
           servers = declared,
           endpoints = parsed,
           securitySchemes = schemes,
           totalEndpoints = length parsed,
           fetchedAt = fr_fetchedAt fetchResult,
           sourceUrl = fr_sourceUrl fetchResult,
           specVersion = fr_specVersion fetchResult\<rparr>
   }"


subsection \<open>Example documents\<close>

text \<open>
  The document of the scenario "direct JSON spec" of the specification:
  \<^verbatim>\<open>{"openapi":"3.0.3","info":{"title":"T","version":"1"},"paths":{"/a":{"get":{"responses":{"200":{"description":"ok"}}}}}}\<close>.
\<close>

definition direct_json_doc :: json where
  "direct_json_doc =
     JObj [(''openapi'', JStr ''3.0.3''),
           (''info'', JObj [(''title'', JStr ''T''), (''version'', JStr ''1'')]),
           (''paths'',
            JObj [(''/a'',
                   JObj [(''get'',
                          JObj [(''responses'',
                                 JObj [(''200'', JObj [(''description'', JStr ''ok'')])])])])])]"

definition direct_json_fetch :: FetchResult where
  "direct_json_fetch =
     \<lparr>fr_spec = direct_json_doc, fr_fetchedAt = ''2024-01-01T00:00:00.000Z'',
      fr_sourceUrl = ''https://api.x.com/openapi.json'', fr_specVersion = ''OpenAPI 3.0.3''\<rparr>"

text \<open>
  The document of the scenario "Swagger 2.0 base URL synthesis":
  \<^verbatim>\<open>swagger: "2.0", host: "api.x.com", basePath: "/v1", schemes: ["https"]\<close>.
\<close>

definition swagger2_doc :: json where
  "swagger2_doc =
     JObj [(''swagger'', JStr ''2.0''),
           (''info'', JObj [(''title'', JStr ''T''), (''version'', JStr ''1'')]),
           (''host'', JStr ''api.x.com''),
           (''basePath'', JStr ''/v1''),
           (''schemes'', JArr [JStr ''https'']),
           (''paths'', JObj [])]"

text \<open>
  A document whose schema \<^verbatim>\<open>Node\<close> refers to itself, one whose schemas \<^verbatim>\<open>A\<close> and \<^verbatim>\<open>B\<close> refer to
  each other, and one whose schema \<^verbatim>\<open>Tree\<close> has a property that refers to \<^verbatim>\<open>Tree\<close>.
\<close>

definition self_ref_doc :: json where
  "self_ref_doc =
     JObj [(''definitions'', JObj [(''Node'', JObj [(''$ref'', JStr ''#/definitions/Node'')])])]"

definition ref_cycle_doc :: json where
  "ref_cycle_doc =
     JObj [(''definitions'',
            JObj [(''A'', JObj [(''$ref'', JStr ''#/definitions/B'')]),
                  (''B'', JObj [(''$ref'', JStr ''#/definitions/A'')])])]"

definition tree_doc :: json where
  "tree_doc =
     JObj [(''definitions'',
            JObj [(''Tree'',
                   JObj [(''type'', JStr ''object''),
                         (''properties'',
                          JObj [(''child'', JObj [(''$ref'', JStr ''#/definitions/Tree'')])])])])]"

text \<open>An OpenAPI 3 document that declares two servers.\<close>

definition servers_doc :: json where
  "servers_doc =
     JObj [(''openapi'', JStr ''3.0.3''),
           (''servers'',
            JArr [JObj [(''url'', JStr ''https://api.x.com/v3'')],
                  JObj [(''url'', JStr ''https://staging.x.com'')]])]"

subsection \<open>The base URL as the specification words it\<close>

text \<open>
  The scheme of a Swagger 2.0 document is the first entry of \<^verbatim>\<open>schemes\<close>, and \<^verbatim>\<open>https\<close> when
  \<^verbatim>\<open>schemes\<close> is absent; its base path is \<^verbatim>\<open>basePath\<close>, and empty when \<^verbatim>\<open>basePath\<close> is absent.
\<close>

definition claimed_scheme :: "json \<Rightarrow> string option" where
  "claimed_scheme schemes =
     (case schemes of
        JUndefined \<Rightarrow> Some ''https''
      | JArr (JStr s # rest) \<Rightarrow> Some s
      | _ \<Rightarrow> None)"

definition claimed_basePath :: "json \<Rightarrow> string option" where
  "claimed_basePath basePath =
     (case basePath of
        JUndefined \<Rightarrow> Some []
      | JStr b \<Rightarrow> Some b
      | _ \<Rightarrow> None)"


subsection \<open>The parameter merge as the specification words it\<close>

text \<open>
  A parameter entry that is a reference (it has a \<^verbatim>\<open>$ref\<close> key), and the key of the
  specification for a parameter: the pair (location, name).
\<close>

definition is_ref :: "json \<Rightarrow> bool" where
  "is_ref p = (has_key ''$ref'' p = Some True)"

definition pair_key :: "json \<Rightarrow> json \<times> json" where
  "pair_key p = (property p ''in'', property p ''name'')"

text \<open>
  The overlay of the entries \<open>ps\<close>, earlier entries first, under a key: a reference is
  dropped, and an entry is dropped when a later entry has its key. All other entries are
  kept.
\<close>

fun overlay_by :: "(json \<Rightarrow> 'k) \<Rightarrow> json list \<Rightarrow> json list" where
  "overlay_by key [] = []"
| "overlay_by key (p # ps) =
     (if is_ref p \<or> (\<exists>q \<in> set ps. \<not> is_ref q \<and> key q = key p) then overlay_by key ps
      else p # overlay_by key ps)"

text \<open>
  The path-item-level parameters overlaid with the operation-level parameters, keyed by
  (location, name): the operation-level entries come later, so they win a collision.
\<close>

definition overlay :: "json list \<Rightarrow> json list \<Rightarrow> json list" where
  "overlay pathParams opParams = overlay_by pair_key (pathParams @ opParams)"

text \<open>
  An entry of a \<^verbatim>\<open>parameters\<close> array: a reference object, or a parameter object whose
  \<^verbatim>\<open>in\<close> and \<^verbatim>\<open>name\<close> are strings, with a location that has no colon (as every location of
  OpenAPI: \<^verbatim>\<open>path\<close>, \<^verbatim>\<open>query\<close>, \<^verbatim>\<open>header\<close>, \<^verbatim>\<open>cookie\<close>, \<^verbatim>\<open>body\<close>, \<^verbatim>\<open>formData\<close>).
\<close>

definition parameter_entry :: "json \<Rightarrow> bool" where
  "parameter_entry p =
     (case has_key ''$ref'' p of
        None \<Rightarrow> False
      | Some True \<Rightarrow> True
      | Some False \<Rightarrow>
          (case (property p ''in'', property p ''name'') of
             (JStr location, JStr name) \<Rightarrow> CHR '':'' \<notin> set location
           | _ \<Rightarrow> False))"

text \<open>
  A path item with the parameters \<^verbatim>\<open>limit\<close> (query), \<^verbatim>\<open>id\<close> (path) and a reference, and an
  operation that declares \<^verbatim>\<open>limit\<close> (query) again and \<^verbatim>\<open>X-Trace\<close> (header).
\<close>

definition limit_at_path :: json where
  "limit_at_path =
     JObj [(''name'', JStr ''limit''), (''in'', JStr ''query''), (''type'', JStr ''integer'')]"

definition id_at_path :: json where
  "id_at_path =
     JObj [(''name'', JStr ''id''), (''in'', JStr ''path''), (''required'', JBool True),
           (''type'', JStr ''string'')]"

definition limit_at_operation :: json where
  "limit_at_operation =
     JObj [(''name'', JStr ''limit''), (''in'', JStr ''query''), (''type'', JStr ''string''),
           (''description'', JStr ''page size'')]"

definition trace_at_operation :: json where
  "trace_at_operation = JObj [(''name'', JStr ''X-Trace''), (''in'', JStr ''header'')]"

definition items_pathItem :: json where
  "items_pathItem =
     JObj [(''parameters'',
            JArr [limit_at_path, id_at_path, JObj [(''$ref'', JStr ''#/parameters/page'')]]),
           (''get'', JObj [(''parameters'', JArr [limit_at_operation, trace_at_operation])])]"

definition items_endpoint :: "Endpoint option" where
  "items_endpoint =
     parseOperation swagger2_doc False ''/items'' ''get'' (property items_pathItem ''get'')
       items_pathItem"



chapter \<open>Properties\<close>

section \<open>Strings and search\<close>

subsection \<open>Facts about strings\<close>

lemma includes_Nil [simp]: "includes s []"
  by (induction s) auto

lemma includes_iff: "includes s sub \<longleftrightarrow> (\<exists>p q. s = p @ sub @ q)"
proof (induction s)
  case Nil
  then show ?case by auto
next
  case (Cons c cs)
  show ?case
  proof
    assume "includes (c # cs) sub"
    then consider "prefix sub (c # cs)" | "includes cs sub" by auto
    then show "\<exists>p q. c # cs = p @ sub @ q"
    proof cases
      case 1
      then obtain q where "c # cs = sub @ q" by (auto simp: prefix_def)
      then have "c # cs = [] @ sub @ q" by simp
      then show ?thesis by blast
    next
      case 2
      with Cons.IH obtain p q where "cs = p @ sub @ q" by blast
      then have "c # cs = (c # p) @ sub @ q" by simp
      then show ?thesis by blast
    qed
  next
    assume "\<exists>p q. c # cs = p @ sub @ q"
    then obtain p q where pq: "c # cs = p @ sub @ q" by blast
    show "includes (c # cs) sub"
    proof (cases p)
      case Nil
      with pq have "prefix sub (c # cs)" by (simp add: prefix_def)
      then show ?thesis by simp
    next
      case (Cons a p')
      with pq have "cs = p' @ sub @ q" by simp
      with Cons.IH have "includes cs sub" by blast
      then show ?thesis by simp
    qed
  qed
qed

lemma trim_all_space:
  assumes "\<forall>c \<in> set s. is_space c"
  shows "trim s = []"
proof -
  have d: "dropWhile is_space s = []" using assms by simp
  show ?thesis unfolding trim_def d by simp
qed

lemma lower_char_space:
  assumes "is_space c"
  shows "lower_char c = c"
proof -
  from assms consider "c = CHR 0x09" | "c = CHR 0x0A" | "c = CHR 0x0B" | "c = CHR 0x0C"
    | "c = CHR 0x0D" | "c = CHR '' ''"
    unfolding is_space_def by fastforce
  then show ?thesis by cases (simp_all add: lower_char_def)
qed

lemma toLowerCase_all_space: "\<forall>c \<in> set s. is_space c \<Longrightarrow> toLowerCase s = s"
  by (simp add: toLowerCase_def lower_char_space map_idI)

subsection \<open>Facts about the search\<close>

lemma sort_key_map: "sort_key f (map g xs) = map g (sort_key (\<lambda>x. f (g x)) xs)"
proof (induction xs)
  case Nil
  show ?case by simp
next
  case (Cons x xs)
  have ins: "insort_key f (g x) (map g ys) = map g (insort_key (\<lambda>x. f (g x)) x ys)" for ys
    by (induction ys) auto
  from Cons show ?case by (simp add: ins)
qed

lemma fold_term_bonus:
  "fold
     (\<lambda>t score.
        let score = (if includes (toLowerCase (path ep)) t then score + 5 else score);
            score = (if opt_includes (operationId ep) t then score + 5 else score);
            score = (if opt_includes (summary ep) t then score + 3 else score);
            score = (if opt_includes (description ep) t then score + 2 else score)
        in score)
     ts s0 = s0 + sum_list (map (term_bonus ep) ts)"
  by (induction ts arbitrary: s0) (auto simp: term_bonus_def bonus_def Let_def)

lemma scoreEndpoint_claimed:
  "scoreEndpoint (trim (toLowerCase query))
     (filter (\<lambda>t. length t > 0) (split_whitespace (trim (toLowerCase query)))) ep =
   claimed_score query ep"
proof -
  have step: "(if b then s + n else s) = s + bonus b n" for b and s n :: int
    by (simp add: bonus_def)
  show ?thesis
    unfolding scoreEndpoint_def fold_term_bonus
    unfolding claimed_score_def Let_def step
    by (simp add: bonus_def)
qed

lemma filtered_endpoints:
  "(let endpoints = eps;
        endpoints =
          (if given (filter_method filters)
           then filter (\<lambda>ep. toLowerCase (method ep) = toLowerCase (the (filter_method filters)))
                  endpoints
           else endpoints);
        endpoints =
          (if given (filter_tag filters)
           then filter
                  (\<lambda>ep. \<exists>t \<in> set (tags ep).
                     includes (toLowerCase t) (toLowerCase (the (filter_tag filters))))
                  endpoints
           else endpoints)
    in endpoints) = filter (matches_filters filters) eps"
  by (cases "filter_method filters"; cases "filter_tag filters")
     (auto simp: given_def matches_filters_def Let_def intro!: filter_cong)

lemma searchEndpoints_sorted_filter:
  "searchEndpoints eps query filters =
   sort_key (\<lambda>e. - claimed_score query e)
     (filter (\<lambda>e. 0 < claimed_score query e) (filter (matches_filters filters) eps))"
proof -
  let ?S = "claimed_score query"
  let ?cand = "filter (matches_filters filters) eps"
  have "searchEndpoints eps query filters =
        map fst (sort_key (\<lambda>s. - snd s) (filter (\<lambda>s. snd s > 0) (map (\<lambda>e. (e, ?S e)) ?cand)))"
    unfolding searchEndpoints_def Let_def scoreEndpoint_claimed
    by (simp only: filtered_endpoints [unfolded Let_def])
  also have "filter (\<lambda>s. snd s > 0) (map (\<lambda>e. (e, ?S e)) ?cand) =
             map (\<lambda>e. (e, ?S e)) (filter (\<lambda>e. 0 < ?S e) ?cand)"
    by (simp add: filter_map comp_def)
  also have "sort_key (\<lambda>s. - snd s) (map (\<lambda>e. (e, ?S e)) (filter (\<lambda>e. 0 < ?S e) ?cand)) =
             map (\<lambda>e. (e, ?S e)) (sort_key (\<lambda>e. - ?S e) (filter (\<lambda>e. 0 < ?S e) ?cand))"
    by (simp add: sort_key_map)
  finally show ?thesis by (simp add: comp_def)
qed

text \<open>
  Claim C3. For every list of endpoints, query and filters, \<^const>\<open>searchEndpoints\<close> applies
  the filters first and scores the remaining endpoints by the additive score of the
  specification (\<^const>\<open>claimed_score\<close>: 100 for an exact operation id, else 50 for an
  operation id that contains the query; 40, 30, 20 and 15 for path, summary, description and
  tags; 5, 5, 3 and 2 per query term). The result holds exactly the filtered endpoints of
  positive score (as a multiset), it is sorted by descending score, and endpoints of equal
  score keep the order they have in the description.
\<close>

theorem searchEndpoints_ranking:
  "mset (searchEndpoints eps query filters) =
     mset (filter (\<lambda>e. 0 < claimed_score query e) (filter (matches_filters filters) eps)) \<and>
   sorted_wrt (\<lambda>a b. claimed_score query b \<le> claimed_score query a)
     (searchEndpoints eps query filters) \<and>
   (\<forall>k. filter (\<lambda>e. claimed_score query e = k) (searchEndpoints eps query filters) =
        filter (\<lambda>e. claimed_score query e = k \<and> 0 < k) (filter (matches_filters filters) eps))"
proof -
  let ?S = "claimed_score query"
  let ?pos = "filter (\<lambda>e. 0 < ?S e) (filter (matches_filters filters) eps)"
  have r: "searchEndpoints eps query filters = sort_key (\<lambda>e. - ?S e) ?pos"
    by (rule searchEndpoints_sorted_filter)
  have m: "mset (sort_key (\<lambda>e. - ?S e) ?pos) = mset ?pos"
    by simp
  have "sorted (map (\<lambda>e. - ?S e) (sort_key (\<lambda>e. - ?S e) ?pos))"
    by (rule sorted_sort_key)
  then have s: "sorted_wrt (\<lambda>a b. ?S b \<le> ?S a) (sort_key (\<lambda>e. - ?S e) ?pos)"
    by (simp add: sorted_map)
  have st: "filter (\<lambda>e. ?S e = k) (sort_key (\<lambda>e. - ?S e) ?pos) =
            filter (\<lambda>e. ?S e = k \<and> 0 < k) (filter (matches_filters filters) eps)" for k
  proof -
    have "filter (\<lambda>e. - ?S e = - k) (sort_key (\<lambda>e. - ?S e) ?pos) =
          filter (\<lambda>e. - ?S e = - k) ?pos"
      by (rule sort_key_stable)
    then have "filter (\<lambda>e. ?S e = k) (sort_key (\<lambda>e. - ?S e) ?pos) = filter (\<lambda>e. ?S e = k) ?pos"
      by simp
    also have "\<dots> = filter (\<lambda>e. ?S e = k \<and> 0 < k) (filter (matches_filters filters) eps)"
      by (auto intro: filter_cong)
    finally show ?thesis .
  qed
  from m s st show ?thesis unfolding r by blast
qed

lemma claimed_score_getUsers: "claimed_score ''users'' ep_getUsers = 148"
  by (simp add: claimed_score_def term_bonus_def bonus_def opt_includes_def ep_getUsers_def
      toLowerCase_def lower_char_def trim_def is_space_def split_whitespace_def)

lemma claimed_score_getUserById: "claimed_score ''users'' ep_getUserById = 60"
  by (simp add: claimed_score_def term_bonus_def bonus_def opt_includes_def ep_getUserById_def
      toLowerCase_def lower_char_def trim_def is_space_def split_whitespace_def)

theorem searchEndpoints_ranking_witness:
  "mset (searchEndpoints [ep_getUserById, ep_getUsers] ''users'' no_filters) =
     {#ep_getUserById, ep_getUsers#} \<and>
   sorted_wrt (\<lambda>a b. claimed_score ''users'' b \<le> claimed_score ''users'' a)
     (searchEndpoints [ep_getUserById, ep_getUsers] ''users'' no_filters)"
  using searchEndpoints_ranking [of "[ep_getUserById, ep_getUsers]" "''users''" no_filters]
  by (simp add: claimed_score_getUsers claimed_score_getUserById matches_filters_def
      no_filters_def)

text \<open>
  The query \<^verbatim>\<open>getUsers\<close> against the operations \<^verbatim>\<open>getUsers\<close> and \<^verbatim>\<open>getUserById\<close>: the first is
  an exact match of the operation id, the second matches in no field and is left out.
\<close>

lemma searchEndpoints_getUsers:
  "searchEndpoints [ep_getUsers, ep_getUserById] ''getUsers'' no_filters = [ep_getUsers]"
  by code_simp

text \<open>
  Claim C10. For the empty or white-space-only query the trimmed query is empty, every
  endpoint scores at least 40 (the empty string occurs in every path), and the search
  returns every endpoint that passes the filters.
\<close>

theorem searchEndpoints_blank_query:
  assumes "\<forall>c \<in> set query. is_space c"
  shows "trim (toLowerCase query) = [] \<and>
         (\<forall>e \<in> set eps. 40 \<le> scoreEndpoint (trim (toLowerCase query))
            (filter (\<lambda>t. length t > 0) (split_whitespace (trim (toLowerCase query)))) e) \<and>
         mset (searchEndpoints eps query filters) = mset (filter (matches_filters filters) eps)"
proof -
  have q: "trim (toLowerCase query) = []"
    using assms by (simp add: toLowerCase_all_space trim_all_space)
  have score: "40 \<le> claimed_score query e" for e :: "'a NormalizedEndpoint_scheme"
    unfolding claimed_score_def Let_def q
    by (cases "operationId e")
       (simp_all add: bonus_def split_whitespace_def opt_includes_def)
  then have pos: "filter (\<lambda>e. 0 < claimed_score query e) xs = xs"
    for xs :: "'a NormalizedEndpoint_scheme list"
    by (induction xs) (auto simp: less_le_trans [of 0 40])
  have "mset (searchEndpoints eps query filters) = mset (filter (matches_filters filters) eps)"
    by (simp add: searchEndpoints_sorted_filter pos)
  with q score show ?thesis
    unfolding scoreEndpoint_claimed by simp
qed

theorem searchEndpoints_blank_query_witness:
  "trim (toLowerCase ''  '') = [] \<and>
   mset (searchEndpoints [ep_getUsers, ep_getUserById] ''  '' no_filters) =
     {#ep_getUsers, ep_getUserById#}"
proof -
  have h: "\<forall>c \<in> set ''  ''. is_space c"
    by (simp add: is_space_def)
  from searchEndpoints_blank_query [OF h, of "[ep_getUsers, ep_getUserById]" no_filters]
  show ?thesis
    by (simp add: matches_filters_def no_filters_def)
qed

section \<open>Fetcher\<close>

lemma includes_append_right: "includes b sub \<Longrightarrow> includes (a @ b) sub"
proof -
  assume "includes b sub"
  then obtain p q where "b = p @ sub @ q" by (auto simp: includes_iff)
  then have "a @ b = (a @ p) @ sub @ q" by simp
  then show ?thesis unfolding includes_iff by blast
qed

lemma includes_append_left: "includes a sub \<Longrightarrow> includes (a @ b) sub"
proof -
  assume "includes a sub"
  then obtain p q where "a = p @ sub @ q" by (auto simp: includes_iff)
  then have "a @ b = p @ sub @ (q @ b)" by simp
  then show ?thesis unfolding includes_iff by blast
qed

lemma includes_rev: "includes (rev s) (rev sub) \<longleftrightarrow> includes s sub"
proof -
  have "(\<exists>p q. rev s = p @ rev sub @ q) \<longleftrightarrow> (\<exists>p q. s = p @ sub @ q)"
  proof
    assume "\<exists>p q. rev s = p @ rev sub @ q"
    then obtain p q where "rev s = p @ rev sub @ q" by blast
    then have "rev (rev s) = rev (p @ rev sub @ q)" by simp
    then have "s = rev q @ sub @ rev p" by simp
    then show "\<exists>p q. s = p @ sub @ q" by blast
  next
    assume "\<exists>p q. s = p @ sub @ q"
    then obtain p q where "s = p @ sub @ q" by blast
    then have "rev s = rev q @ rev sub @ rev p" by simp
    then show "\<exists>p q. rev s = p @ rev sub @ q" by blast
  qed
  then show ?thesis by (simp add: includes_iff)
qed

lemma includes_dropWhile:
  assumes "sub \<noteq> []" and "\<not> P (hd sub)"
  shows "includes (dropWhile P s) sub \<longleftrightarrow> includes s sub"
proof (induction s)
  case Nil
  show ?case by simp
next
  case (Cons c cs)
  show ?case
  proof (cases "P c")
    case True
    with assms have "\<not> prefix sub (c # cs)"
      by (cases sub) auto
    with True Cons show ?thesis by simp
  next
    case False
    then show ?thesis by simp
  qed
qed

lemma includes_trim:
  assumes "sub \<noteq> []" and "\<not> is_space (hd sub)" and "\<not> is_space (last sub)"
  shows "includes (trim s) sub \<longleftrightarrow> includes s sub"
proof -
  have r: "rev sub \<noteq> []" "\<not> is_space (hd (rev sub))"
    using assms by (simp_all add: hd_rev)
  have "includes (trim s) sub \<longleftrightarrow> includes (rev (trim s)) (rev sub)"
    by (simp add: includes_rev)
  also have "\<dots> \<longleftrightarrow> includes (dropWhile is_space (rev (dropWhile is_space s))) (rev sub)"
    by (simp add: trim_def)
  also have "\<dots> \<longleftrightarrow> includes (rev (dropWhile is_space s)) (rev sub)"
    by (rule includes_dropWhile [where P = is_space and sub = "rev sub", OF r])
  also have "\<dots> \<longleftrightarrow> includes (dropWhile is_space s) sub"
    by (rule includes_rev)
  also have "\<dots> \<longleftrightarrow> includes s sub"
    by (rule includes_dropWhile [where P = is_space and sub = sub, OF assms(1,2)])
  finally show ?thesis .
qed

lemma lower_char_cases: "lower_char c = c \<or> lower_char c \<in> set ''abcdefghijklmnopqrstuvwxyz''"
proof (cases "map_of (zip ''ABCDEFGHIJKLMNOPQRSTUVWXYZ'' ''abcdefghijklmnopqrstuvwxyz'') c")
  case None
  then show ?thesis unfolding lower_char_def by simp
next
  case (Some l)
  then have "(c, l) \<in> set (zip ''ABCDEFGHIJKLMNOPQRSTUVWXYZ'' ''abcdefghijklmnopqrstuvwxyz'')"
    by (rule map_of_SomeD)
  then have "l \<in> set ''abcdefghijklmnopqrstuvwxyz''"
    by (rule set_zip_rightD)
  with Some show ?thesis unfolding lower_char_def by simp
qed

lemma letters_not_space: "\<forall>l \<in> set ''abcdefghijklmnopqrstuvwxyz''. \<not> is_space l"
  by (simp add: is_space_def)

lemma is_space_lower_char: "is_space (lower_char c) = is_space c"
proof (cases "is_space c")
  case True
  then show ?thesis by (simp add: lower_char_space)
next
  case False
  with lower_char_cases [of c] letters_not_space show ?thesis by auto
qed

lemma toLowerCase_trim: "toLowerCase (trim s) = trim (toLowerCase s)"
proof -
  have c: "is_space \<circ> lower_char = is_space"
    by (rule ext) (simp add: is_space_lower_char)
  have d: "dropWhile is_space (map lower_char xs) = map lower_char (dropWhile is_space xs)" for xs
    by (simp add: dropWhile_map c)
  show ?thesis
    unfolding toLowerCase_def trim_def by (simp add: d rev_map)
qed

lemma includes_lower_trim:
  assumes "sub \<noteq> []" and "\<not> is_space (hd sub)" and "\<not> is_space (last sub)"
  shows "includes (toLowerCase (trim s)) sub \<longleftrightarrow> includes (toLowerCase s) sub"
  unfolding toLowerCase_trim by (rule includes_trim [OF assms])

lemma isHtmlResponse_html_page: "isHtmlResponse body contentType \<longleftrightarrow> html_page body contentType"
proof -
  have h: "includes (toLowerCase (trim body)) ''<head'' \<longleftrightarrow> includes (toLowerCase body) ''<head''"
    by (rule includes_lower_trim) (simp_all add: is_space_def)
  have b: "includes (toLowerCase (trim body)) ''<body'' \<longleftrightarrow> includes (toLowerCase body) ''<body''"
    by (rule includes_lower_trim) (simp_all add: is_space_def)
  show ?thesis
    unfolding isHtmlResponse_def html_page_def Let_def h b by (rule refl)
qed

text \<open>
  Claim C7, as stated, fails. A response declared as \<^verbatim>\<open>application/xhtml+xml\<close> with the body
  \<^verbatim>\<open>{}\<close> has a content type that contains \<^verbatim>\<open>html\<close>, and the code does not classify it as an
  HTML page: \<^verbatim>\<open>fetch()\<close> parses it directly.
\<close>

theorem html_classification_counterexample:
  "claimed_html ''{}'' ''application/xhtml+xml'' \<and>
   \<not> isHtmlResponse ''{}'' ''application/xhtml+xml'' \<and>
   fetch_branch_of (Some ''application/xhtml+xml'') ''{}'' = ParseDirectly"
  by (simp add: claimed_html_def isHtmlResponse_def fetch_branch_of_def given_def startsWith_def
      toLowerCase_def lower_char_def trim_def is_space_def)

text \<open>
  Claim C7, amended. A response is classified as an HTML documentation page, and
  \<^verbatim>\<open>fetch()\<close> enters the Swagger UI scraping instead of parsing the body, if and only if the
  declared content type contains \<^verbatim>\<open>text/html\<close>, or the trimmed body starts (in any case) with
  \<^verbatim>\<open><!doctype html\<close> or \<^verbatim>\<open><html\<close>, or the body contains (in any case) both \<^verbatim>\<open><head\<close> and
  \<^verbatim>\<open><body\<close>.
\<close>

theorem html_classification:
  "(isHtmlResponse body contentType \<longleftrightarrow> html_page body contentType) \<and>
   (fetch_branch_of header body = ScrapeSwaggerUI \<longleftrightarrow>
      html_page body (if given header then the header else []))"
  by (simp add: fetch_branch_of_def isHtmlResponse_html_page)

theorem html_classification_witness:
  "isHtmlResponse '' <HTML>'' ''application/json'' \<and>
   fetch_branch_of (Some ''application/json'') '' <HTML>'' =
     ScrapeSwaggerUI"
  using html_classification
    [of "'' <HTML>''" "''application/json''"
      "Some ''application/json''"]
  by (simp add: html_page_def given_def startsWith_def toLowerCase_def lower_char_def trim_def
      is_space_def)

text \<open>
  Claim C8. A fetch that fails with the HTTP status 401 or 403 is wrapped into an error of
  the code \<^verbatim>\<open>AUTH_ERROR\<close>, never \<^verbatim>\<open>NOT_FOUND\<close>, whose message tells to supply the
  \<^verbatim>\<open>authToken\<close> parameter (an auth token); a fetch that fails with the status 404 is wrapped
  into an error of the code \<^verbatim>\<open>NOT_FOUND\<close>, and its message differs from the message of the
  authentication error.
\<close>

theorem handleFetchError_auth_and_not_found:
  assumes "status = 401 \<or> status = 403"
  shows
    "code (handleFetchError url (AxiosError m c (Some status) st)) = ''AUTH_ERROR'' \<and>
     code (handleFetchError url (AxiosError m c (Some status) st)) \<noteq> ''NOT_FOUND'' \<and>
     includes (message (handleFetchError url (AxiosError m c (Some status) st))) ''authToken'' \<and>
     includes (message (handleFetchError url (AxiosError m c (Some status) st))) ''auth token'' \<and>
     code (handleFetchError url' (AxiosError m' c' (Some 404) st')) = ''NOT_FOUND'' \<and>
     message (handleFetchError url (AxiosError m c (Some status) st)) \<noteq>
       message (handleFetchError url' (AxiosError m' c' (Some 404) st'))"
proof -
  let ?auth = "handleFetchError url (AxiosError m c (Some status) st)"
  let ?nf = "handleFetchError url' (AxiosError m' c' (Some 404) st')"
  have msg: "message ?auth =
      ''Authentication failed ('' @
      (template_num (Some status) @ '' '' @ template_str st @ ''). '') @
      (''This API requires authentication. Use the authToken parameter: '' @
       [CHR 0x22] @ ''Please analyze the API at [URL] with auth token [YOUR_TOKEN]'') @
      [CHR 0x22]"
    using assms by auto
  have a: "includes (message ?auth) ''authToken''"
    unfolding msg
    by (rule includes_append_right, rule includes_append_right, rule includes_append_left,
        rule includes_append_left) simp
  have b: "includes (message ?auth) ''auth token''"
    unfolding msg
    by (rule includes_append_right, rule includes_append_right, rule includes_append_left,
        rule includes_append_right, rule includes_append_right) simp
  have c: "code ?auth = ''AUTH_ERROR''" "code ?nf = ''NOT_FOUND''"
    using assms by auto
  have d: "message ?auth \<noteq> message ?nf"
    using assms by auto
  from a b c d show ?thesis by simp
qed

theorem handleFetchError_auth_and_not_found_witness:
  "code (handleFetchError ''https://api.x.com/openapi.json''
           (AxiosError ''Request failed with status code 401'' (Some ''ERR_BAD_REQUEST'')
              (Some 401) (Some ''Unauthorized''))) = ''AUTH_ERROR'' \<and>
   includes
     (message (handleFetchError ''https://api.x.com/openapi.json''
        (AxiosError ''Request failed with status code 401'' (Some ''ERR_BAD_REQUEST'')
           (Some 401) (Some ''Unauthorized''))))
     ''authToken'' \<and>
   code (handleFetchError ''https://api.x.com/openapi.json''
           (AxiosError ''Request failed with status code 404'' (Some ''ERR_BAD_REQUEST'')
              (Some 404) (Some ''Not Found''))) = ''NOT_FOUND''"
proof -
  have h: "(401::nat) = 401 \<or> (401::nat) = 403" by simp
  from handleFetchError_auth_and_not_found [OF h] show ?thesis by blast
qed


section \<open>Cache\<close>

lemma run_Nil [simp]: "run [] s = s"
  by (simp add: run_def)

lemma run_Cons [simp]: "run (e # es) s = run es (step e s)"
  by (simp add: run_def)

lemma run_append: "run (es @ fs) s = run fs (run es s)"
  by (simp add: run_def)

lemma isExpired_calls_update [simp]: "isExpired (s\<lparr>calls := f\<rparr>) = isExpired s"
  by (simp add: isExpired_def split: option.splits)

lemma get_calls_update [simp]: "get (s\<lparr>calls := f\<rparr>) = get s"
  by (simp add: get_def split: option.splits)

text \<open>
  While a refresh is in flight, whatever calls, timers and ticks occur: the producer is not
  invoked again, the slot is not written, and every caller that has called polls. The timer
  of a polling caller that fires finds \<^verbatim>\<open>isRefreshing\<close> set, and the caller goes on polling.
\<close>

lemma in_flight_polling:
  assumes "hasOnRefresh s" and "isRefreshing s" and "\<forall>ev \<in> set evs. \<not> is_settle ev"
  shows "fetches (run evs s) = fetches s \<and> isRefreshing (run evs s) \<and>
         hasOnRefresh (run evs s) \<and> cache (run evs s) = cache s \<and> ttlMs (run evs s) = ttlMs s \<and>
         (\<forall>x. calls (run evs s) x = (if Call x \<in> set evs then Polling else calls s x))"
  using assms
proof (induction evs arbitrary: s)
  case Nil
  then show ?case by simp
next
  case (Cons ev evs)
  have st: "fetches (step ev s) = fetches s \<and> isRefreshing (step ev s) \<and>
      hasOnRefresh (step ev s) \<and> cache (step ev s) = cache s \<and> ttlMs (step ev s) = ttlMs s \<and>
      (\<forall>x. calls (step ev s) x = (if ev = Call x then Polling else calls s x))"
    using Cons.prems by (cases ev) (auto simp: is_settle_def split: promise.splits)
  from Cons.IH [of "step ev s"] Cons.prems(3) st show ?case by auto
qed

text \<open>
  While no refresh is in flight and no call is made, a polling caller settles when its timer
  fires for the first time, with what \<^verbatim>\<open>get()\<close> returns at that moment.
\<close>

lemma slot_read_calls_update [simp]: "slot_read (s\<lparr>calls := f\<rparr>) = slot_read s"
  by (simp add: slot_read_def fun_eq_iff)

lemma slot_read_not_Polling [simp]: "slot_read s w \<noteq> Polling"
  by (simp add: slot_read_def reject_def split: option.splits)

lemma step_timer_idle:
  assumes "\<not> isRefreshing s" and "is_timer ev"
  shows "\<not> isRefreshing (step ev s) \<and> fetches (step ev s) = fetches s \<and>
         cache (step ev s) = cache s"
  using assms by (cases ev) (auto simp: is_timer_def split: promise.splits option.splits)

lemma settled_stays:
  assumes "\<forall>ev \<in> set evs. is_timer ev" and "calls s w \<noteq> Polling"
  shows "calls (run evs s) w = calls s w"
  using assms
proof (induction evs arbitrary: s)
  case Nil
  then show ?case by simp
next
  case (Cons ev evs)
  have "calls (step ev s) w = calls s w"
    using Cons.prems by (cases ev) (auto simp: is_timer_def split: promise.splits option.splits)
  with Cons.IH [of "step ev s"] Cons.prems show ?case by simp
qed

lemma idle_timers:
  assumes "\<not> isRefreshing s" and "\<forall>ev \<in> set evs. is_timer ev"
  shows "\<not> isRefreshing (run evs s) \<and> fetches (run evs s) = fetches s \<and>
         cache (run evs s) = cache s"
  using assms
proof (induction evs arbitrary: s)
  case Nil
  then show ?case by simp
next
  case (Cons ev evs)
  from Cons.IH [of "step ev s"] Cons.prems step_timer_idle [of s ev] show ?case by simp
qed

lemma idle_waiter_reads_slot:
  assumes "\<not> isRefreshing s" and "\<forall>ev \<in> set evs. is_timer ev" and "calls s w = Polling"
  shows "calls (run evs s) w =
         (case wake_time w evs of
            None \<Rightarrow> Polling
          | Some t \<Rightarrow> slot_read (s\<lparr>now := now s + t\<rparr>) w)"
  using assms
proof (induction evs arbitrary: s)
  case Nil
  then show ?case by simp
next
  case (Cons ev evs)
  from Cons.prems(2) have timers: "\<forall>ev \<in> set evs. is_timer ev" and ev: "is_timer ev"
    by simp_all
  show ?case
  proof (cases ev)
    case (Tick n)
    have "calls (run evs (step ev s)) w =
        (case wake_time w evs of
           None \<Rightarrow> Polling
         | Some t \<Rightarrow> slot_read ((step ev s)\<lparr>now := now (step ev s) + t\<rparr>) w)"
      using Cons.prems timers by (intro Cons.IH) (simp_all add: Tick)
    then show ?thesis
      by (simp add: Tick add.assoc split: option.splits)
  next
    case (Wake x)
    show ?thesis
    proof (cases "x = w")
      case True
      have "step ev s = s\<lparr>calls := (calls s)(w := slot_read s w)\<rparr>"
        using Cons.prems(1,3) by (simp add: Wake True slot_read_def split: option.splits)
      then have "calls (run evs (step ev s)) w = slot_read s w"
        using settled_stays [OF timers, of "step ev s" w] by simp
      then show ?thesis by (simp add: Wake True)
    next
      case False
      obtain f where f: "step ev s = s\<lparr>calls := f\<rparr>" and fw: "f w = Polling"
      proof (cases "calls s x = Polling")
        case True
        with Cons.prems(1,3) False that [of "(calls s)(x := slot_read s x)"] show ?thesis
          by (simp add: Wake slot_read_def split: option.splits)
      next
        case False
        with Cons.prems(3) that [of "calls s"] show ?thesis
          by (simp add: Wake split: promise.splits)
      qed
      have sr: "slot_read ((s\<lparr>calls := f\<rparr>)\<lparr>now := k\<rparr>) = slot_read (s\<lparr>now := k\<rparr>)" for k
        by (simp add: slot_read_def fun_eq_iff get_def isExpired_def split: option.splits)
      have "calls (run (ev # evs) s) w = calls (run evs (s\<lparr>calls := f\<rparr>)) w"
        unfolding run_Cons f ..
      also have "\<dots> =
        (case wake_time w evs of
           None \<Rightarrow> Polling
         | Some t \<Rightarrow> slot_read ((s\<lparr>calls := f\<rparr>)\<lparr>now := now (s\<lparr>calls := f\<rparr>) + t\<rparr>) w)"
        using Cons.prems(1) timers fw by (intro Cons.IH) simp_all
      also have "\<dots> =
        (case wake_time w evs of
           None \<Rightarrow> Polling
         | Some t \<Rightarrow> slot_read (s\<lparr>now := now s + t\<rparr>) w)"
        by (simp add: sr split: option.splits)
      also have "\<dots> =
        (case wake_time w (ev # evs) of
           None \<Rightarrow> Polling
         | Some t \<Rightarrow> slot_read (s\<lparr>now := now s + t\<rparr>) w)"
        using False by (simp add: Wake)
      finally show ?thesis .
    qed
  next
    case (Call x)
    with ev show ?thesis by (simp add: is_timer_def)
  next
    case (Settle x r)
    with ev show ?thesis by (simp add: is_timer_def)
  qed
qed

text \<open>
  A call of \<^verbatim>\<open>refresh()\<close> made while no refresh is in flight, any calls, timers and ticks
  while its producer runs, the settling of the producer, and any timers and ticks
  afterwards. The producer is invoked exactly once; the first caller settles with the
  outcome of the producer; the slot is written on success only; and every caller that
  called in between settles, when its timer fires for the first time after the refresh, with
  what the slot holds at that moment, whether the refresh succeeded or failed.
\<close>

lemma refresh_schedule:
  assumes "hasOnRefresh s" and "\<not> isRefreshing s"
    and "\<forall>ev \<in> set flight. \<not> is_settle ev" and "Call c \<notin> set flight"
    and "\<forall>ev \<in> set after. is_timer ev"
  shows "fetches (run (Call c # flight @ Settle c r # after) s) = fetches s + 1"
    and "calls (run (Call c # flight @ Settle c r # after) s) c =
           (case r of Inr d \<Rightarrow> Fulfilled d | Inl e \<Rightarrow> reject c (ProducerFailed e))"
    and "cache (run (Call c # flight @ Settle c r # after) s) =
           (case r of
              Inr d \<Rightarrow> Some \<lparr>data = d, createdAt = now (run (Call c # flight) s),
                              expiresAt = now (run (Call c # flight) s) + ttlMs s\<rparr>
            | Inl e \<Rightarrow> cache s)"
    and "Call w \<in> set flight \<Longrightarrow>
         calls (run (Call c # flight @ Settle c r # after) s) w =
           (case wake_time w after of
              None \<Rightarrow> Polling
            | Some t \<Rightarrow>
                slot_read (run (Call c # flight @ [Settle c r, Tick t]) s) w)"
proof -
  define s0 where "s0 = step (Call c) s"
  define s1 where "s1 = run flight s0"
  define s2 where "s2 = step (Settle c r) s1"
  have s0: "hasOnRefresh s0" "isRefreshing s0" "fetches s0 = fetches s + 1"
    "calls s0 c = AwaitingProducer" "cache s0 = cache s" "ttlMs s0 = ttlMs s"
    using assms(1,2) by (simp_all add: s0_def)
  have fl: "fetches s1 = fetches s0" "cache s1 = cache s0" "ttlMs s1 = ttlMs s0"
    "\<And>x. calls s1 x = (if Call x \<in> set flight then Polling else calls s0 x)"
    using in_flight_polling [OF s0(1,2) assms(3)] by (simp_all add: s1_def)
  have c1: "calls s1 c = AwaitingProducer"
    using fl(4) [of c] assms(4) s0(4) by simp
  have s2: "\<not> isRefreshing s2" "fetches s2 = fetches s + 1"
    "calls s2 c = (case r of Inr d \<Rightarrow> Fulfilled d | Inl e \<Rightarrow> reject c (ProducerFailed e))"
    "cache s2 = (case r of
              Inr d \<Rightarrow> Some \<lparr>data = d, createdAt = now s1, expiresAt = now s1 + ttlMs s\<rparr>
            | Inl e \<Rightarrow> cache s)"
    using fl(1,2,3) s0(3,5,6) c1 by (simp_all add: s2_def set_spec_def split: sum.splits)
  have run: "run (Call c # flight @ Settle c r # evs) s = run evs s2" for evs
    by (simp add: run_append s2_def s1_def s0_def)
  have run1: "run (Call c # flight) s = s1"
    by (simp add: s1_def s0_def)
  note idle = idle_timers [OF s2(1) assms(5)]
  show "fetches (run (Call c # flight @ Settle c r # after) s) = fetches s + 1"
    unfolding run using idle s2(2) by simp
  have "calls s2 c \<noteq> Polling"
    unfolding s2(3) by (simp add: reject_def split: sum.splits)
  from settled_stays [OF assms(5) this]
  show "calls (run (Call c # flight @ Settle c r # after) s) c =
           (case r of Inr d \<Rightarrow> Fulfilled d | Inl e \<Rightarrow> reject c (ProducerFailed e))"
    unfolding run s2(3) .
  show "cache (run (Call c # flight @ Settle c r # after) s) =
           (case r of
              Inr d \<Rightarrow> Some \<lparr>data = d, createdAt = now (run (Call c # flight) s),
                              expiresAt = now (run (Call c # flight) s) + ttlMs s\<rparr>
            | Inl e \<Rightarrow> cache s)"
    unfolding run run1 using idle s2(4) by simp
  assume w: "Call w \<in> set flight"
  with assms(4) have wc: "w \<noteq> c" by auto
  have "calls s1 w = Polling" using fl(4) [of w] w by simp
  then have pw: "calls s2 w = Polling"
    using c1 wc by (simp add: s2_def split: sum.splits)
  have "run (Call c # flight @ [Settle c r, Tick t]) s = s2\<lparr>now := now s2 + t\<rparr>" for t
    by (simp add: run_append s2_def s1_def s0_def)
  then show "calls (run (Call c # flight @ Settle c r # after) s) w =
           (case wake_time w after of
              None \<Rightarrow> Polling
            | Some t \<Rightarrow>
                slot_read (run (Call c # flight @ [Settle c r, Tick t]) s) w)"
    unfolding run using idle_waiter_reads_slot [OF s2(1) assms(5) pw]
    by (simp split: option.splits)
qed

text \<open>
  Claim C1. Several calls of \<^verbatim>\<open>refresh()\<close> overlap; the claim is that the producer is invoked
  once, that on success every caller resolves with the new description, and that on failure
  every waiting caller observes the failure and gets no stale data. On the cache
  \<^const>\<open>fresh_cache\<close>, which holds the unexpired description \<^verbatim>\<open>old\<close>, the events
  \<^const>\<open>stale_waiter_events\<close> give: one invocation of the producer; the second client polling
  while the refresh is in flight; the first client rejecting with the error of the producer;
  and the second client, which waited, not reaching \<^verbatim>\<open>throw new Error('Refresh failed')\<close> and
  resolving with \<^verbatim>\<open>old\<close>.
\<close>

theorem refresh_waiter_stale_data:
  "get fresh_cache = Some ''old'' \<and>
   fetches (run stale_waiter_events fresh_cache) = 1 \<and>
   calls (run (take 4 stale_waiter_events) fresh_cache) (Client 2) = Polling \<and>
   calls (run stale_waiter_events fresh_cache) (Client 1) =
     Rejected (ProducerFailed ''upstream down'') \<and>
   calls (run stale_waiter_events fresh_cache) (Client 2) = Fulfilled ''old''"
  by (simp add: stale_waiter_events_def fresh_cache_def reject_def get_def isExpired_def)

text \<open>
  The waiting path reads the slot in the success case as well. With a time to live of 60 ms
  the producer is invoked once and succeeds, the first client resolves with the new
  description, and the second one, which wakes 100 ms later, finds the new entry expired and
  rejects with \<^verbatim>\<open>Refresh failed\<close>.
\<close>

lemma refresh_waiter_expired_entry:
  "fetches (run expired_waiter_events short_lived_cache) = 1 \<and>
   calls (run expired_waiter_events short_lived_cache) (Client 1) = Fulfilled ''new'' \<and>
   calls (run expired_waiter_events short_lived_cache) (Client 2) = Rejected RefreshFailed"
  by (simp add: expired_waiter_events_def short_lived_cache_def reject_def get_def isExpired_def
      set_spec_def)

text \<open>
  Claim C4, as stated, fails. A refresh fails on a cache that holds the unexpired description
  \<^verbatim>\<open>old\<close>, and ten minutes pass. The slot is what it was and no refresh has succeeded since,
  but a read returns nothing: \<^verbatim>\<open>get()\<close> never returns an expired entry.
\<close>

theorem refresh_failure_counterexample:
  "cache expired_after_failure_run = cache fresh_cache \<and>
   get fresh_cache = Some ''old'' \<and>
   get expired_after_failure_run = None"
  by (simp add: expired_after_failure_run_def failing_refresh_def fresh_cache_def reject_def
      get_def isExpired_def)

text \<open>
  Claim C4, amended. When the producer of a \<^verbatim>\<open>refresh()\<close> call fails, the caller observes the
  failure, \<^verbatim>\<open>isRefreshing\<close> is reset, and the slot is exactly what it was before the call: no
  entry is replaced, created or cleared. A later read returns what it would have returned
  had the refresh not been attempted: the previous description while it is unexpired, and
  nothing once it has expired. A failure of the auto-refresh callback likewise leaves the
  slot intact, and its rejection is caught and logged.
\<close>

theorem refresh_failure_keeps_slot:
  assumes "hasOnRefresh s" and "\<not> isRefreshing s"
  shows
    "cache (run (failing_refresh c t0 e) s) = cache s \<and>
     \<not> isRefreshing (run (failing_refresh c t0 e) s) \<and>
     calls (run (failing_refresh c t0 e) s) c = reject c (ProducerFailed e) \<and>
     (\<forall>t. get (run (failing_refresh c t0 e @ [Tick t]) s) = get (run [Tick (t0 + t)] s)) \<and>
     (\<forall>t. get (run (failing_refresh c t0 e @ [Tick t]) s) =
        (case cache s of
           None \<Rightarrow> None
         | Some entry \<Rightarrow> if now s + t0 + t > expiresAt entry then None else Some (data entry))) \<and>
     cache (run (failing_refresh AutoRefreshTimer t0 e) s) = cache s \<and>
     calls (run (failing_refresh AutoRefreshTimer t0 e) s) AutoRefreshTimer =
       Logged (ProducerFailed e)"
  using assms
  by (simp add: failing_refresh_def reject_def get_def isExpired_def add.assoc
      split: option.splits)

theorem refresh_failure_keeps_slot_witness:
  "cache (run (failing_refresh (Client 1) 50 ''upstream down'') fresh_cache) =
     Some \<lparr>data = ''old'', createdAt = 0, expiresAt = 600000\<rparr> \<and>
   calls (run (failing_refresh (Client 1) 50 ''upstream down'') fresh_cache) (Client 1) =
     Rejected (ProducerFailed ''upstream down'') \<and>
   get (run (failing_refresh (Client 1) 50 ''upstream down'' @ [Tick 100]) fresh_cache) =
     Some ''old'' \<and>
   calls (run (failing_refresh AutoRefreshTimer 50 ''upstream down'') fresh_cache)
     AutoRefreshTimer = Logged (ProducerFailed ''upstream down'')"
proof -
  have h: "hasOnRefresh fresh_cache" "\<not> isRefreshing fresh_cache"
    by (simp_all add: fresh_cache_def)
  from refresh_failure_keeps_slot [OF h, of "Client 1" 50 "''upstream down''"] show ?thesis
    by (simp add: fresh_cache_def reject_def failing_refresh_def get_def isExpired_def)
qed




section \<open>Parser\<close>

lemma show_nat_0: "show_nat 0 = ''0''"
  by (simp add: show_nat.simps)

lemma property_first: "property (JArr (x # xs)) ''0'' = x"
proof -
  have "[0..<Suc (length xs)] = 0 # [Suc 0..<Suc (length xs)]"
    by (rule upt_conv_Cons) simp
  then show ?thesis
    by (simp add: property_def own_entries_def index_keys_def show_nat_0 del: upt_Suc)
qed

lemma property_no_first: "property (JArr []) ''0'' = JUndefined"
  by (simp add: property_def own_entries_def index_keys_def)

text \<open>
  Claim C2. Every description that \<^const>\<open>parse\<close> returns has a \<^const>\<open>totalEndpoints\<close> equal to
  the length of its list of endpoints.
\<close>

theorem parse_totalEndpoints:
  assumes "parse fetchResult = Some normalized"
  shows "totalEndpoints normalized = length (endpoints normalized)"
  using assms by (auto simp: parse_def Let_def split: Option.bind_splits)

lemma parse_direct_json:
  "parse direct_json_fetch =
   Some \<lparr>title = JStr ''T'', version = JStr ''1'', api_description = JUndefined,
         baseUrl = JUndefined, servers = [],
         endpoints =
           [\<lparr>e_path = ''/a'', e_method = ''get'', e_operationId = JUndefined,
              e_summary = JUndefined, e_description = JUndefined,
              e_tags = JArr [], e_deprecated = JBool False,
              pathParameters = [], queryParameters = [], headerParameters = [],
              cookieParameters = [], requestBody = None,
              responses =
                [\<lparr>r_statusCode = ''200'', r_description = JStr ''ok'',
                   r_contentTypes = [], r_schema = None\<rparr>],
              security = []\<rparr>],
         securitySchemes = [], totalEndpoints = 1,
         fetchedAt = ''2024-01-01T00:00:00.000Z'',
         sourceUrl = ''https://api.x.com/openapi.json'',
         specVersion = ''OpenAPI 3.0.3''\<rparr>"
  by code_simp

theorem parse_totalEndpoints_witness:
  "map_option totalEndpoints (parse direct_json_fetch) = Some 1 \<and>
   map_option (\<lambda>n. length (endpoints n)) (parse direct_json_fetch) = Some 1 \<and>
   map_option (\<lambda>n. map (\<lambda>e. (e_path e, e_method e)) (endpoints n)) (parse direct_json_fetch) =
     Some [(''/a'', ''get'')]"
  using parse_totalEndpoints [OF parse_direct_json]
  by (simp add: parse_direct_json)

text \<open>
  Claim C5. \<^const>\<open>normalizeSchema\<close> is a total function: it is defined by recursion on
  \<open>11 - depth\<close>, every recursive call is made at \<open>depth + 1\<close> below the cap, and this holds for
  every document, whatever cycles its references form. Beyond the cap (\<open>depth > 10\<close>) the
  result is the opaque stub \<^verbatim>\<open>{ type: 'object' }\<close>, with no further recursion and no failure.
  On a cycle of references of any length, that is a set \<open>S\<close> of reference objects each of
  which resolves to a member of \<open>S\<close>, every member normalizes, at every depth, without a
  failure: to the stub beyond the cap, and to the stub with the path of the first reference
  retained up to the cap.
\<close>

theorem normalizeSchema_depth_cap:
  assumes closed: "\<forall>x \<in> S. has_key ''$ref'' x = Some True \<and> truthy (property x ''$ref'') \<and>
             (\<exists>y \<in> S. resolveRef spec (property x ''$ref'') = Some y)"
  shows "(10 < depth \<longrightarrow> normalizeSchema spec isV3 schema depth = Some object_stub) \<and>
   (schema \<in> S \<longrightarrow>
      normalizeSchema spec isV3 schema depth =
        Some (if 10 < depth then object_stub
              else with_ref (property schema ''$ref'') object_stub))"
proof (intro conjI impI)
  show cap: "normalizeSchema spec isV3 s d = Some object_stub" if "10 < d" for s d
    using that by (simp add: normalizeSchema.simps)
  let ?P = "\<lambda>d. \<forall>x \<in> S. normalizeSchema spec isV3 x d =
                Some (if 10 < d then object_stub else with_ref (property x ''$ref'') object_stub)"
  have idem: "with_ref r (with_ref r' object_stub) = with_ref r object_stub" for r r'
    by (simp add: with_ref_def object_stub_def)
  have step: "?P d" if "d < 11" and "?P (Suc d)" for d
  proof
    fix x assume x: "x \<in> S"
    from that(1) have d: "\<not> 10 < d" by simp
    from closed x obtain y where y: "y \<in> S"
      and ref: "has_key ''$ref'' x = Some True" "truthy (property x ''$ref'')"
        "resolveRef spec (property x ''$ref'') = Some y"
      by blast
    from closed y have "has_key ''$ref'' y = Some True" by blast
    then have ty: "truthy y"
      by (cases y) (simp_all add: has_key_def truthy_def split: if_splits)
    from ref(1) have tx: "truthy x"
      by (cases x) (simp_all add: has_key_def truthy_def split: if_splits)
    have "normalizeSchema spec isV3 x d =
          map_option (with_ref (property x ''$ref'')) (normalizeSchema spec isV3 y (Suc d))"
      using d by (subst normalizeSchema.simps) (simp add: ref tx ty map_option_case
          split: option.splits)
    also have "\<dots> = Some (with_ref (property x ''$ref'') object_stub)"
      using that(2) y by (simp add: idem)
    finally show "normalizeSchema spec isV3 x d =
        Some (if 10 < d then object_stub else with_ref (property x ''$ref'') object_stub)"
      using d by simp
  qed
  assume s: "schema \<in> S"
  have "?P depth"
  proof (cases "depth \<le> 11")
    case True
    have "?P 11" using cap [of 11] by simp
    with True show ?thesis
      by (rule inc_induct) (rule step, simp_all)
  next
    case False
    then show ?thesis using cap [of depth] by simp
  qed
  with s show "normalizeSchema spec isV3 schema depth =
        Some (if 10 < depth then object_stub
              else with_ref (property schema ''$ref'') object_stub)" by blast
qed

lemma resolveRef_self_ref_doc:
  "resolveRef self_ref_doc (JStr ''#/definitions/Node'') =
   Some (JObj [(''$ref'', JStr ''#/definitions/Node'')])"
  by code_simp

lemma resolveRef_ref_cycle_doc:
  "resolveRef ref_cycle_doc (JStr ''#/definitions/B'') =
     Some (JObj [(''$ref'', JStr ''#/definitions/A'')])"
  "resolveRef ref_cycle_doc (JStr ''#/definitions/A'') =
     Some (JObj [(''$ref'', JStr ''#/definitions/B'')])"
  by code_simp+

theorem normalizeSchema_depth_cap_witness:
  "normalizeSchema ref_cycle_doc False (JObj [(''$ref'', JStr ''#/definitions/A'')]) 0 =
     Some (with_ref (JStr ''#/definitions/A'') object_stub) \<and>
   normalizeSchema ref_cycle_doc False (JObj [(''$ref'', JStr ''#/definitions/A'')]) 11 =
     Some object_stub \<and>
   normalizeSchema self_ref_doc False (JObj [(''$ref'', JStr ''#/definitions/Node'')]) 0 =
     Some (with_ref (JStr ''#/definitions/Node'') object_stub)"
  using normalizeSchema_depth_cap
      [of "{JObj [(''$ref'', JStr ''#/definitions/A'')], JObj [(''$ref'', JStr ''#/definitions/B'')]}"
        ref_cycle_doc 0 False "JObj [(''$ref'', JStr ''#/definitions/A'')]"]
    normalizeSchema_depth_cap
      [of "{JObj [(''$ref'', JStr ''#/definitions/A'')], JObj [(''$ref'', JStr ''#/definitions/B'')]}"
        ref_cycle_doc 11 False "JObj [(''$ref'', JStr ''#/definitions/A'')]"]
    normalizeSchema_depth_cap
      [of "{JObj [(''$ref'', JStr ''#/definitions/Node'')]}"
        self_ref_doc 0 False "JObj [(''$ref'', JStr ''#/definitions/Node'')]"]
  by (simp add: resolveRef_ref_cycle_doc resolveRef_self_ref_doc has_key_def property_def
      own_entries_def truthy_def)

text \<open>
  A schema with a property that refers to the schema itself, normalized from depth 8: the
  reference at depth 10 is still resolved, and the schema it resolves to, at depth 11, is
  the stub.
\<close>

lemma normalizeSchema_tree_doc:
  "normalizeSchema tree_doc False (JObj [(''$ref'', JStr ''#/definitions/Tree'')]) 8 =
   Some (NormalizedSchema
          (no_fields\<lparr>s_type := JStr ''object'', s_ref := JStr ''#/definitions/Tree''\<rparr>)
          (Some [(''child'', with_ref (JStr ''#/definitions/Tree'') object_stub)])
          None None None None)"
  by code_simp

text \<open>
  Claim C6. For an OpenAPI 3.x document the base URL is the \<^verbatim>\<open>url\<close> of the first declared
  server, as it is, and \<^verbatim>\<open>undefined\<close> when no server is declared. For a Swagger 2.0 document
  with a host, the base URL is \<open>scheme://host\<close> followed by the base path: the scheme is the
  first entry of \<^verbatim>\<open>schemes\<close> and \<^verbatim>\<open>https\<close> when \<^verbatim>\<open>schemes\<close> is absent, the base path is empty
  when \<^verbatim>\<open>basePath\<close> is absent. (A host and a scheme are non-empty strings.)
\<close>

theorem getBaseUrl_claim:
  "(property spec ''servers'' = JArr (JObj first # rest) \<longrightarrow>
      getBaseUrl spec True = property (JObj first) ''url'') \<and>
   (property spec ''servers'' = JUndefined \<or> property spec ''servers'' = JArr [] \<longrightarrow>
      getBaseUrl spec True = JUndefined) \<and>
   (property spec ''host'' = JStr h \<and> h \<noteq> [] \<and>
    claimed_scheme (property spec ''schemes'') = Some sch \<and> sch \<noteq> [] \<and>
    claimed_basePath (property spec ''basePath'') = Some bp \<longrightarrow>
      getBaseUrl spec False = JStr (sch @ ''://'' @ h @ bp))"
proof (intro conjI impI)
  assume "property spec ''servers'' = JArr (JObj first # rest)"
  then show "getBaseUrl spec True = property (JObj first) ''url''"
    by (simp add: getBaseUrl_def opt_prop_def nullish_def property_first)
next
  assume "property spec ''servers'' = JUndefined \<or> property spec ''servers'' = JArr []"
  then show "getBaseUrl spec True = JUndefined"
    by (auto simp: getBaseUrl_def opt_prop_def nullish_def property_no_first)
next
  assume a: "property spec ''host'' = JStr h \<and> h \<noteq> [] \<and>
    claimed_scheme (property spec ''schemes'') = Some sch \<and> sch \<noteq> [] \<and>
    claimed_basePath (property spec ''basePath'') = Some bp"
  then have host: "property spec ''host'' = JStr h" "h \<noteq> []" and sch: "sch \<noteq> []"
    by simp_all
  from a sch have s: "or_else (opt_prop (property spec ''schemes'') ''0'') (JStr ''https'') = JStr sch"
    by (auto simp: claimed_scheme_def or_else_def opt_prop_def nullish_def truthy_def
        property_first split: json.splits list.splits)
  from a have b: "to_string (or_else (property spec ''basePath'') (JStr [])) = bp"
    by (auto simp: claimed_basePath_def or_else_def truthy_def split: json.splits)
  show "getBaseUrl spec False = JStr (sch @ ''://'' @ h @ bp)"
    using host by (simp add: getBaseUrl_def Let_def s b truthy_def)
qed

theorem getBaseUrl_claim_witness:
  "getBaseUrl swagger2_doc False = JStr ''https://api.x.com/v1'' \<and>
   getBaseUrl servers_doc True = JStr ''https://api.x.com/v3''"
proof -
  have v2: "property swagger2_doc ''host'' = JStr ''api.x.com'' \<and> ''api.x.com'' \<noteq> [] \<and>
      claimed_scheme (property swagger2_doc ''schemes'') = Some ''https'' \<and> ''https'' \<noteq> [] \<and>
      claimed_basePath (property swagger2_doc ''basePath'') = Some ''/v1''"
    by code_simp
  have v3: "property servers_doc ''servers'' =
      JArr (JObj [(''url'', JStr ''https://api.x.com/v3'')] #
            [JObj [(''url'', JStr ''https://staging.x.com'')]])"
    by code_simp
  have url: "property (JObj [(''url'', JStr ''https://api.x.com/v3'')]) ''url'' =
      JStr ''https://api.x.com/v3''"
    by code_simp
  from getBaseUrl_claim [of swagger2_doc "[]" "[]" "''api.x.com''" "''https''" "''/v1''"] v2
  have "getBaseUrl swagger2_doc False = JStr (''https'' @ ''://'' @ ''api.x.com'' @ ''/v1'')"
    by blast
  moreover from getBaseUrl_claim
      [of servers_doc "[(''url'', JStr ''https://api.x.com/v3'')]"
        "[JObj [(''url'', JStr ''https://staging.x.com'')]]" "[]" "[]" "[]"] v3
  have "getBaseUrl servers_doc True = property (JObj [(''url'', JStr ''https://api.x.com/v3'')]) ''url''"
    by blast
  ultimately show ?thesis by (simp add: url)
qed


subsection \<open>The parameter merge\<close>

lemma append_sep_inject:
  assumes "xs @ c # ys = xs' @ c # ys'" and "c \<notin> set xs" and "c \<notin> set xs'"
  shows "xs = xs' \<and> ys = ys'"
proof -
  have "takeWhile (\<lambda>x. x \<noteq> c) (xs @ c # ys) = xs"
    using assms(2) by (auto simp: takeWhile_tail takeWhile_eq_all_conv)
  moreover have "takeWhile (\<lambda>x. x \<noteq> c) (xs' @ c # ys') = xs'"
    using assms(3) by (auto simp: takeWhile_tail takeWhile_eq_all_conv)
  ultimately have "xs = xs'" using assms(1) by simp
  with assms(1) show ?thesis by simp
qed

lemma parameter_entry_strings:
  assumes "parameter_entry p" and "\<not> is_ref p"
  obtains location name where "property p ''in'' = JStr location"
    and "property p ''name'' = JStr name" and "CHR '':'' \<notin> set location"
  using assms
  by (auto simp: parameter_entry_def is_ref_def split: option.splits bool.splits json.splits)

lemma param_key_pair_key:
  assumes "parameter_entry p" "\<not> is_ref p" "parameter_entry q" "\<not> is_ref q"
  shows "param_key q = param_key p \<longleftrightarrow> pair_key q = pair_key p"
proof -
  from assms(1,2) obtain l n where p: "property p ''in'' = JStr l" "property p ''name'' = JStr n"
    "CHR '':'' \<notin> set l"
    by (rule parameter_entry_strings)
  from assms(3,4) obtain l' n' where q: "property q ''in'' = JStr l'"
    "property q ''name'' = JStr n'" "CHR '':'' \<notin> set l'"
    by (rule parameter_entry_strings)
  have "l' @ CHR '':'' # n' = l @ CHR '':'' # n \<longleftrightarrow> l' = l \<and> n' = n"
    using append_sep_inject [of l' "CHR '':''" n' l n] p(3) q(3) by auto
  then show ?thesis
    by (simp add: param_key_def pair_key_def p q)
qed

lemma overlay_by_keys:
  assumes "\<forall>p \<in> set ps. parameter_entry p"
  shows "overlay_by param_key ps = overlay_by pair_key ps"
  using assms
proof (induction ps)
  case Nil
  show ?case by simp
next
  case (Cons p ps)
  have "(\<exists>q \<in> set ps. \<not> is_ref q \<and> param_key q = param_key p) \<longleftrightarrow>
        (\<exists>q \<in> set ps. \<not> is_ref q \<and> pair_key q = pair_key p)" if "\<not> is_ref p"
    using Cons.prems that by (auto simp: param_key_pair_key)
  with Cons show ?case by auto
qed

lemma overlay_by_subset: "set (overlay_by key ps) \<subseteq> {p \<in> set ps. \<not> is_ref p}"
  by (induction ps) auto

lemma overlay_by_distinct: "distinct (map key (overlay_by key ps))"
proof (induction ps)
  case Nil
  show ?case by simp
next
  case (Cons p ps)
  have "key p \<notin> key ` set (overlay_by key ps)"
    if "\<not> (\<exists>q \<in> set ps. \<not> is_ref q \<and> key q = key p)"
    using that overlay_by_subset [of key ps] by auto
  with Cons show ?case by auto
qed

lemma update_values:
  assumes "\<forall>(k, v) \<in> set m. k = param_key v" and "distinct (map fst m)"
  shows "snd ` set (AList.update (param_key p) p m) =
         {v \<in> snd ` set m. param_key v \<noteq> param_key p} \<union> {p}"
  using assms
proof (induction m)
  case Nil
  show ?case by simp
next
  case (Cons e m)
  obtain k v where e: "e = (k, v)" by (cases e)
  from Cons.prems e have kv: "k = param_key v" and inv: "\<forall>(k, v) \<in> set m. k = param_key v"
    and fresh: "k \<notin> fst ` set m" and d: "distinct (map fst m)"
    by auto
  show ?case
  proof (cases "k = param_key p")
    case True
    have "param_key w \<noteq> param_key p" if "w \<in> snd ` set m" for w
    proof -
      from that obtain k' where "(k', w) \<in> set m" by auto
      with inv fresh have "k' = param_key w" "k' \<noteq> k" by force+
      with True show ?thesis by simp
    qed
    then have "{w \<in> snd ` set m. param_key w \<noteq> param_key p} = snd ` set m"
      by auto
    with True kv show ?thesis
      by (auto simp: e)
  next
    case False
    with Cons.IH [OF inv d] kv show ?thesis
      by (auto simp: e)
  qed
qed

lemma update_keys_inv:
  assumes "\<forall>(k, v) \<in> set m. k = param_key v"
  shows "\<forall>(k, v) \<in> set (AList.update (param_key p) p m). k = param_key v"
  using assms by (induction m) auto

lemma collect_parameters_overlay:
  assumes "\<forall>p \<in> set ps. has_key ''$ref'' p \<noteq> None"
    and "distinct (map fst m)" and "\<forall>(k, v) \<in> set m. k = param_key v"
  shows "\<exists>m'. collect_parameters ps m = Some m' \<and> distinct (map fst m') \<and>
           (\<forall>(k, v) \<in> set m'. k = param_key v) \<and>
           snd ` set m' =
             {v \<in> snd ` set m. \<forall>q \<in> set ps. is_ref q \<or> param_key q \<noteq> param_key v} \<union>
             set (overlay_by param_key ps)"
  using assms
proof (induction ps arbitrary: m)
  case Nil
  then show ?case by simp
next
  case (Cons p ps)
  from Cons.prems(1) obtain b where b: "has_key ''$ref'' p = Some b" by auto
  show ?case
  proof (cases b)
    case True
    then have r: "is_ref p" using b by (simp add: is_ref_def)
    from Cons.IH [of m] Cons.prems obtain m' where
      m': "collect_parameters ps m = Some m'" "distinct (map fst m')"
        "\<forall>(k, v) \<in> set m'. k = param_key v"
        "snd ` set m' =
           {v \<in> snd ` set m. \<forall>q \<in> set ps. is_ref q \<or> param_key q \<noteq> param_key v} \<union>
           set (overlay_by param_key ps)"
      by auto
    have "collect_parameters (p # ps) m = Some m'"
      using b True m'(1) by simp
    moreover have "snd ` set m' =
        {v \<in> snd ` set m. \<forall>q \<in> set (p # ps). is_ref q \<or> param_key q \<noteq> param_key v} \<union>
        set (overlay_by param_key (p # ps))"
      using m'(4) r by auto
    ultimately show ?thesis using m'(2,3) by blast
  next
    case False
    then have r: "\<not> is_ref p" using b by (simp add: is_ref_def)
    let ?m = "AList.update (param_key p) p m"
    have d: "distinct (map fst ?m)"
      using Cons.prems(2) by (rule distinct_update)
    have inv: "\<forall>(k, v) \<in> set ?m. k = param_key v"
      using Cons.prems(3) by (rule update_keys_inv)
    have vals: "snd ` set ?m = {v \<in> snd ` set m. param_key v \<noteq> param_key p} \<union> {p}"
      using Cons.prems(3,2) by (rule update_values)
    from Cons.IH [of ?m] Cons.prems(1) d inv obtain m' where
      m': "collect_parameters ps ?m = Some m'" "distinct (map fst m')"
        "\<forall>(k, v) \<in> set m'. k = param_key v"
        "snd ` set m' =
           {v \<in> snd ` set ?m. \<forall>q \<in> set ps. is_ref q \<or> param_key q \<noteq> param_key v} \<union>
           set (overlay_by param_key ps)"
      by auto
    have "collect_parameters (p # ps) m = Some m'"
      using b False m'(1) by simp
    moreover have "snd ` set m' =
        {v \<in> snd ` set m. \<forall>q \<in> set (p # ps). is_ref q \<or> param_key q \<noteq> param_key v} \<union>
        set (overlay_by param_key (p # ps))"
      unfolding m'(4) vals using r overlay_by_subset [of param_key ps] by auto
    ultimately show ?thesis using m'(2,3) by blast
  qed
qed

lemma collect_parameters_mset:
  assumes "\<forall>p \<in> set ps. parameter_entry p"
    and "collect_parameters ps [] = Some m"
  shows "mset (map snd m) = mset (overlay_by pair_key ps)"
proof -
  have k: "\<forall>p \<in> set ps. has_key ''$ref'' p \<noteq> None"
    using assms(1) by (auto simp: parameter_entry_def split: option.splits)
  from collect_parameters_overlay [OF k, of "[]"] assms(2)
  have d: "distinct (map fst m)" and inv: "\<forall>(k, v) \<in> set m. k = param_key v"
    and s: "snd ` set m = set (overlay_by param_key ps)"
    by auto
  have "map fst m = map param_key (map snd m)"
    using inv by (induction m) auto
  with d have "distinct (map param_key (map snd m))" by simp
  then have dm: "distinct (map snd m)"
    using distinct_map [of param_key "map snd m"] by blast
  have "distinct (map pair_key (overlay_by pair_key ps))"
    by (rule overlay_by_distinct)
  then have dov: "distinct (overlay_by pair_key ps)"
    using distinct_map [of pair_key "overlay_by pair_key ps"] by blast
  have "set (map snd m) = set (overlay_by pair_key ps)"
    using s overlay_by_keys [OF assms(1)] by simp
  with set_eq_iff_mset_eq_distinct [OF dm dov] show ?thesis
    by blast
qed

lemma those_map:
  "those (map f zs) =
   (if \<forall>z \<in> set zs. f z \<noteq> None then Some (map (\<lambda>z. the (f z)) zs) else None)"
  by (induction zs) (auto split: option.splits)

lemma those_map_mset:
  "map_option mset (those (map f zs)) =
   (if \<forall>z \<in> set zs. f z \<noteq> None then Some (image_mset (\<lambda>z. the (f z)) (mset zs)) else None)"
  by (simp add: those_map)

lemma filterParameters_mset:
  assumes "mset xs = mset ys"
  shows "map_option mset (filterParameters spec isV3 xs location) =
         map_option mset (filterParameters spec isV3 ys location)"
proof -
  have "set xs = set ys" using assms by (rule mset_eq_setD)
  moreover have "mset (filter P xs) = mset (filter P ys)" for P
    using assms by simp
  ultimately show ?thesis
    unfolding filterParameters_def those_map_mset by simp
qed

text \<open>
  The overlay by levels: the overlay of the operation-level entries, preceded by those
  entries of the overlay of the path-item-level entries that no operation-level parameter
  overrides. Entries with distinct keys, none a reference, are all kept.
\<close>

lemma overlay_by_append:
  "overlay_by key (ps @ qs) =
     filter (\<lambda>p. \<not> (\<exists>q \<in> set qs. \<not> is_ref q \<and> key q = key p)) (overlay_by key ps) @
     overlay_by key qs"
  by (induction ps) auto

lemma overlay_levels:
  "overlay pathParams opParams =
     filter (\<lambda>p. \<not> (\<exists>q \<in> set opParams. \<not> is_ref q \<and> pair_key q = pair_key p))
       (overlay_by pair_key pathParams) @
     overlay_by pair_key opParams"
  unfolding overlay_def by (rule overlay_by_append)

lemma overlay_by_distinct_keys:
  "distinct (map key ps) \<Longrightarrow> \<forall>p \<in> set ps. \<not> is_ref p \<Longrightarrow> overlay_by key ps = ps"
  by (induction ps) (auto simp: image_iff)

text \<open>
  Claim C9. Let the parameters of the path item and of the operation be arrays of parameter
  entries. The four parameter lists of the endpoint that \<^const>\<open>parseOperation\<close> returns are,
  as multisets, the normalized entries of the overlay at the locations \<^verbatim>\<open>path\<close>, \<^verbatim>\<open>query\<close>,
  \<^verbatim>\<open>header\<close> and \<^verbatim>\<open>cookie\<close>. The overlay (\<^const>\<open>overlay\<close>) is keyed by the pair (location,
  name): it drops every entry with a \<^verbatim>\<open>$ref\<close>, it drops an entry when a later entry has its
  key, so that the operation-level entry wins a collision, and it keeps every other entry;
  it holds one entry for each key.
\<close>

theorem parseOperation_parameters:
  assumes "iterate (or_else (property pathItem ''parameters'') (JArr [])) = Some pathParams"
    and "iterate (or_else (property operation ''parameters'') (JArr [])) = Some opParams"
    and "\<forall>p \<in> set (pathParams @ opParams). parameter_entry p"
    and "parseOperation spec isV3 path_key method_key operation pathItem = Some endpoint"
  shows
    "map_option mset (filterParameters spec isV3 (overlay pathParams opParams) ''path'') =
       Some (mset (pathParameters endpoint)) \<and>
     map_option mset (filterParameters spec isV3 (overlay pathParams opParams) ''query'') =
       Some (mset (queryParameters endpoint)) \<and>
     map_option mset (filterParameters spec isV3 (overlay pathParams opParams) ''header'') =
       Some (mset (headerParameters endpoint)) \<and>
     map_option mset (filterParameters spec isV3 (overlay pathParams opParams) ''cookie'') =
       Some (mset (cookieParameters endpoint)) \<and>
     (\<forall>p \<in> set (overlay pathParams opParams). \<not> is_ref p) \<and>
     distinct (map pair_key (overlay pathParams opParams))"
proof -
  from assms(4) obtain m where
    m: "collect_parameters (pathParams @ opParams) [] = Some m"
    and lists:
      "filterParameters spec isV3 (map snd m) ''path'' = Some (pathParameters endpoint)"
      "filterParameters spec isV3 (map snd m) ''query'' = Some (queryParameters endpoint)"
      "filterParameters spec isV3 (map snd m) ''header'' = Some (headerParameters endpoint)"
      "filterParameters spec isV3 (map snd m) ''cookie'' = Some (cookieParameters endpoint)"
    unfolding parseOperation_def assms(1,2)
    by (auto simp: Let_def split: Option.bind_splits)
  have "mset (map snd m) = mset (overlay pathParams opParams)"
    unfolding overlay_def using assms(3) m by (rule collect_parameters_mset)
  then have eq: "map_option mset (filterParameters spec isV3 (overlay pathParams opParams) l) =
      map_option mset (filterParameters spec isV3 (map snd m) l)" for l
    by (rule filterParameters_mset [symmetric])
  have "\<forall>p \<in> set (overlay pathParams opParams). \<not> is_ref p"
    unfolding overlay_def using overlay_by_subset [of pair_key "pathParams @ opParams"] by auto
  moreover have "distinct (map pair_key (overlay pathParams opParams))"
    unfolding overlay_def by (rule overlay_by_distinct)
  ultimately show ?thesis
    unfolding eq lists by simp
qed

theorem parseOperation_parameters_witness:
  "overlay [limit_at_path, id_at_path, JObj [(''$ref'', JStr ''#/parameters/page'')]]
     [limit_at_operation, trace_at_operation] =
     [id_at_path, limit_at_operation, trace_at_operation] \<and>
   map_option mset
     (filterParameters swagger2_doc False
        (overlay [limit_at_path, id_at_path, JObj [(''$ref'', JStr ''#/parameters/page'')]]
           [limit_at_operation, trace_at_operation]) ''query'') =
     map_option (\<lambda>e. mset (queryParameters e)) items_endpoint \<and>
   map_option (\<lambda>e. map (\<lambda>p. (p_name p, p_description p)) (queryParameters e)) items_endpoint =
     Some [(JStr ''limit'', JStr ''page size'')] \<and>
   map_option (\<lambda>e. map p_name (pathParameters e)) items_endpoint = Some [JStr ''id''] \<and>
   map_option (\<lambda>e. map p_name (headerParameters e)) items_endpoint = Some [JStr ''X-Trace''] \<and>
   map_option (\<lambda>e. map p_name (cookieParameters e)) items_endpoint = Some []"
proof -
  let ?pathParams = "[limit_at_path, id_at_path, JObj [(''$ref'', JStr ''#/parameters/page'')]]"
  let ?opParams = "[limit_at_operation, trace_at_operation]"
  have "items_endpoint \<noteq> None" by code_simp
  then obtain e where e: "items_endpoint = Some e" by auto
  have h1: "iterate (or_else (property items_pathItem ''parameters'') (JArr [])) = Some ?pathParams"
    by code_simp
  have h2: "iterate (or_else (property (property items_pathItem ''get'') ''parameters'') (JArr [])) =
      Some ?opParams"
    by code_simp
  have h3: "\<forall>p \<in> set (?pathParams @ ?opParams). parameter_entry p"
    by code_simp
  have h4: "parseOperation swagger2_doc False ''/items'' ''get'' (property items_pathItem ''get'')
      items_pathItem = Some e"
    using e by (simp add: items_endpoint_def)
  have ov: "overlay ?pathParams ?opParams = [id_at_path, limit_at_operation, trace_at_operation]"
    by code_simp
  have names:
    "map_option (\<lambda>e. map (\<lambda>p. (p_name p, p_description p)) (queryParameters e)) items_endpoint =
       Some [(JStr ''limit'', JStr ''page size'')]"
    "map_option (\<lambda>e. map p_name (pathParameters e)) items_endpoint = Some [JStr ''id'']"
    "map_option (\<lambda>e. map p_name (headerParameters e)) items_endpoint = Some [JStr ''X-Trace'']"
    "map_option (\<lambda>e. map p_name (cookieParameters e)) items_endpoint = Some []"
    by code_simp+
  from parseOperation_parameters [OF h1 h2 h3 h4]
  have "map_option mset (filterParameters swagger2_doc False (overlay ?pathParams ?opParams) ''query'') =
      Some (mset (queryParameters e))"
    by blast
  with ov names show ?thesis
    by (simp add: e)
qed


end
